theory Spec2Isabelle
  imports Complex_Main "HOL-Library.Char_ord" "HOL-Library.List_Lexorder" "HOL-Library.Word"
    "HOL-Library.Log_Nat"
begin

section \<open>Errors\<close>

text \<open>
  The exceptions the modelled code can raise.  \<open>KeyError\<close> is what
  \<^verbatim>\<open>OrderedDict.popitem\<close> raises on an empty dictionary, \<open>ValueError\<close> is raised for
  an unknown backend name, \<open>RedisError\<close> is any failure of a command sent to the remote
  store, \<open>HTTPError\<close> is any failure of \<^verbatim>\<open>httpx.AsyncClient.request\<close>,
  \<open>HTTPException\<close> carries the status code an endpoint answers with.
\<close>

datatype error = KeyError | ValueError | RedisError | HTTPError | HTTPException int

section \<open>collections.OrderedDict\<close>

text \<open>
  An \<^verbatim>\<open>OrderedDict\<close> is an association list in iteration order: the head is
  the oldest position (what \<^verbatim>\<open>popitem(last=False)\<close> removes), the last element
  is the newest.  The operations below are the ones \<^verbatim>\<open>cache_backends.py\<close> calls.
\<close>

type_synonym ('k, 'v) ordered_dict = "('k \<times> 'v) list"

definition od_contains :: "'k \<Rightarrow> ('k, 'v) ordered_dict \<Rightarrow> bool" where
  \<comment> \<open>\<^verbatim>\<open>key in d\<close>\<close>
  "od_contains k d = (map_of d k \<noteq> None)"

definition od_delitem :: "'k \<Rightarrow> ('k, 'v) ordered_dict \<Rightarrow> ('k, 'v) ordered_dict" where
  \<comment> \<open>\<^verbatim>\<open>del d[key]\<close>, only ever called on a key that is present\<close>
  "od_delitem k d = filter (\<lambda>kv. fst kv \<noteq> k) d"

definition od_move_to_end :: "'k \<Rightarrow> ('k, 'v) ordered_dict \<Rightarrow> ('k, 'v) ordered_dict" where
  \<comment> \<open>\<^verbatim>\<open>d.move_to_end(key)\<close>, only ever called on a key that is present\<close>
  "od_move_to_end k d =
     (case map_of d k of
        None \<Rightarrow> d
      | Some v \<Rightarrow> od_delitem k d @ [(k, v)])"

definition od_popitem_first :: "('k, 'v) ordered_dict \<Rightarrow> error + ('k, 'v) ordered_dict" where
  \<comment> \<open>\<^verbatim>\<open>d.popitem(last=False)\<close>: raises \<^verbatim>\<open>KeyError\<close> on an empty dictionary\<close>
  "od_popitem_first d = (case d of [] \<Rightarrow> Inl KeyError | _ # rest \<Rightarrow> Inr rest)"

definition od_setitem :: "'k \<Rightarrow> 'v \<Rightarrow> ('k, 'v) ordered_dict \<Rightarrow> ('k, 'v) ordered_dict" where
  \<comment> \<open>\<^verbatim>\<open>d[key] = value\<close>: a present key keeps its position, a new key goes last\<close>
  "od_setitem k v d =
     (if od_contains k d then map (\<lambda>kv. if fst kv = k then (k, v) else kv) d
      else d @ [(k, v)])"

section \<open>MemoryCacheBackend\<close>

text \<open>
  \<^verbatim>\<open>time.time()\<close> is an input of every operation that reads the clock (the
  argument \<open>now\<close>); clock readings and expiry times are real numbers.  The value
  type is a parameter: the backend stores whatever it is handed.
\<close>

record 'v MemoryCacheBackend =
  cache :: "(string, 'v \<times> real) ordered_dict"
  max_size :: int
  default_ttl :: int

definition MemoryCacheBackend_init :: "int \<Rightarrow> int \<Rightarrow> 'v MemoryCacheBackend" where
  "MemoryCacheBackend_init ms dt = \<lparr>cache = [], max_size = ms, default_ttl = dt\<rparr>"

definition MemoryCacheBackend_delete ::
  "'v MemoryCacheBackend \<Rightarrow> string \<Rightarrow> 'v MemoryCacheBackend" where
  "MemoryCacheBackend_delete self key =
     (if od_contains key (cache self) then self\<lparr>cache := od_delitem key (cache self)\<rparr>
      else self)"

definition MemoryCacheBackend_get ::
  "'v MemoryCacheBackend \<Rightarrow> string \<Rightarrow> real \<Rightarrow> 'v option \<times> 'v MemoryCacheBackend" where
  "MemoryCacheBackend_get self key now =
     (case map_of (cache self) key of
        None \<Rightarrow> (None, self)
      | Some (data, expiry) \<Rightarrow>
          if now > expiry then (None, MemoryCacheBackend_delete self key)
          else (Some data, self\<lparr>cache := od_move_to_end key (cache self)\<rparr>))"

definition MemoryCacheBackend_set ::
  "'v MemoryCacheBackend \<Rightarrow> string \<Rightarrow> 'v \<Rightarrow> int option \<Rightarrow> real
     \<Rightarrow> (error + unit) \<times> 'v MemoryCacheBackend" where
  \<comment> \<open>an exception leaves the dictionary as it was when it was raised\<close>
  "MemoryCacheBackend_set self key val ttl now =
     (let ttl' = (case ttl of None \<Rightarrow> default_ttl self | Some t \<Rightarrow> t);
          expiry = now + real_of_int ttl';
          c1 = (if od_contains key (cache self) then od_delitem key (cache self)
                else cache self)
      in if int (length c1) \<ge> max_size self then
           (case od_popitem_first c1 of
              Inl e \<Rightarrow> (Inl e, self\<lparr>cache := c1\<rparr>)
            | Inr c2 \<Rightarrow> (Inr (), self\<lparr>cache := od_setitem key (val, expiry) c2\<rparr>))
         else (Inr (), self\<lparr>cache := od_setitem key (val, expiry) c1\<rparr>))"

definition MemoryCacheBackend_exists ::
  "'v MemoryCacheBackend \<Rightarrow> string \<Rightarrow> real \<Rightarrow> bool \<times> 'v MemoryCacheBackend" where
  "MemoryCacheBackend_exists self key now =
     (case map_of (cache self) key of
        None \<Rightarrow> (False, self)
      | Some (_, expiry) \<Rightarrow>
          if now > expiry then (False, MemoryCacheBackend_delete self key)
          else (True, self))"

text \<open>
  A caller's view of the store: any sequence of the four operations, each with the
  clock reading it sees.  An operation that raises leaves the store as the exception
  found it, and the next operation runs on that store.
\<close>

datatype 'v store_op =
    OpGet string real
  | OpSet string 'v "int option" real
  | OpDelete string
  | OpExists string real

fun store_step :: "'v MemoryCacheBackend \<Rightarrow> 'v store_op \<Rightarrow> 'v MemoryCacheBackend" where
  "store_step s (OpGet k now) = snd (MemoryCacheBackend_get s k now)"
| "store_step s (OpSet k v ttl now) = snd (MemoryCacheBackend_set s k v ttl now)"
| "store_step s (OpDelete k) = MemoryCacheBackend_delete s k"
| "store_step s (OpExists k now) = snd (MemoryCacheBackend_exists s k now)"

definition store_run :: "'v MemoryCacheBackend \<Rightarrow> 'v store_op list \<Rightarrow> 'v MemoryCacheBackend" where
  "store_run s ops = foldl store_step s ops"

definition keys_of :: "('k, 'v) ordered_dict \<Rightarrow> 'k list" where
  "keys_of d = map fst d"

section \<open>Python values and json.dumps\<close>

text \<open>
  The values a request's \<^verbatim>\<open>params\<close> and \<^verbatim>\<open>body\<close> can hold and \<^verbatim>\<open>json.dumps\<close> can
  serialise: \<open>JNull\<close> is Python's \<^verbatim>\<open>None\<close>, a \<open>JDict\<close> is a \<^verbatim>\<open>dict\<close> with string keys in
  insertion order, a \<open>JFloat\<close> carries the text \<^verbatim>\<open>float.__repr__\<close> gives for it.  A
  character is a code point below 256.  \<open>dumps\<close> is
  \<^verbatim>\<open>json.dumps(obj, sort_keys=True)\<close> with the default separators and
  \<^verbatim>\<open>ensure_ascii=True\<close>.
\<close>

datatype json =
    JNull
  | JBool bool
  | JInt int
  | JFloat string
  | JStr string
  | JList "json list"
  | JDict "(string \<times> json) list"

definition digit_char :: "nat \<Rightarrow> char" where
  "digit_char n = ''0123456789abcdef'' ! n"

fun nat_repr :: "nat \<Rightarrow> string" where
  "nat_repr n = (if n < 10 then [digit_char n] else nat_repr (n div 10) @ [digit_char (n mod 10)])"

definition int_repr :: "int \<Rightarrow> string" where
  "int_repr i = (if i < 0 then CHR ''-'' # nat_repr (nat (- i)) else nat_repr (nat i))"

definition escape_char :: "char \<Rightarrow> string" where
  "escape_char c =
     (if c = CHR 0x22 then [CHR 0x5C, CHR 0x22]
      else if c = CHR 0x5C then [CHR 0x5C, CHR 0x5C]
      else if c = CHR 0x0A then [CHR 0x5C, CHR ''n'']
      else if c = CHR 0x0D then [CHR 0x5C, CHR ''r'']
      else if c = CHR 0x09 then [CHR 0x5C, CHR ''t'']
      else if c = CHR 0x08 then [CHR 0x5C, CHR ''b'']
      else if c = CHR 0x0C then [CHR 0x5C, CHR ''f'']
      else if (of_char c :: nat) < 0x20 \<or> (of_char c :: nat) > 0x7E then
        [CHR 0x5C, CHR ''u'', CHR ''0'', CHR ''0'',
         digit_char (of_char c div 16), digit_char (of_char c mod 16)]
      else [c])"

definition encode_basestring_ascii :: "string \<Rightarrow> string" where
  "encode_basestring_ascii s = CHR 0x22 # concat (map escape_char s) @ [CHR 0x22]"

fun join :: "string \<Rightarrow> string list \<Rightarrow> string" where
  "join sep [] = []"
| "join sep [x] = x"
| "join sep (x # y # ys) = x @ sep @ join sep (y # ys)"

fun dumps :: "json \<Rightarrow> string" where
  "dumps JNull = ''null''"
| "dumps (JBool b) = (if b then ''true'' else ''false'')"
| "dumps (JInt i) = int_repr i"
| "dumps (JFloat r) = r"
| "dumps (JStr s) = encode_basestring_ascii s"
| "dumps (JList xs) = ''['' @ join '', '' (map dumps xs) @ '']''"
| "dumps (JDict kvs) =
     ''{'' @ join '', ''
        (map (\<lambda>kv. encode_basestring_ascii (fst kv) @ '': '' @ dumps (snd kv))
             (sort_key fst kvs)) @ ''}''"

text \<open>
  Two values are the same JSON document when they are equal once every dictionary is
  put in key order: they differ at most in the insertion order of dictionaries, at any
  depth.
\<close>

fun canon :: "json \<Rightarrow> json" where
  "canon (JList xs) = JList (map canon xs)"
| "canon (JDict kvs) = JDict (sort_key fst (map (\<lambda>kv. (fst kv, canon (snd kv))) kvs))"
| "canon v = v"

definition same_json :: "json \<Rightarrow> json \<Rightarrow> bool" where
  "same_json a b = (canon a = canon b)"

section \<open>hashlib.md5\<close>

text \<open>
  MD5 (RFC 1321) on byte strings, and \<^verbatim>\<open>str.encode()\<close> (UTF-8) for code points below
  256.  \<open>md5_hexdigest\<close> is \<^verbatim>\<open>hashlib.md5(data).hexdigest()\<close>.
\<close>

unbundle bit_operations_syntax

definition utf8_encode :: "string \<Rightarrow> char list" where
  "utf8_encode s =
     concat (map (\<lambda>c. let n = (of_char c :: nat)
                        in if n < 128 then [c]
                           else [char_of (192 + n div 64), char_of (128 + n mod 64)]) s)"

definition md5_K :: "32 word list" where
  "md5_K =
     [
      0xd76aa478, 0xe8c7b756, 0x242070db, 0xc1bdceee,
      0xf57c0faf, 0x4787c62a, 0xa8304613, 0xfd469501,
      0x698098d8, 0x8b44f7af, 0xffff5bb1, 0x895cd7be,
      0x6b901122, 0xfd987193, 0xa679438e, 0x49b40821,
      0xf61e2562, 0xc040b340, 0x265e5a51, 0xe9b6c7aa,
      0xd62f105d, 0x02441453, 0xd8a1e681, 0xe7d3fbc8,
      0x21e1cde6, 0xc33707d6, 0xf4d50d87, 0x455a14ed,
      0xa9e3e905, 0xfcefa3f8, 0x676f02d9, 0x8d2a4c8a,
      0xfffa3942, 0x8771f681, 0x6d9d6122, 0xfde5380c,
      0xa4beea44, 0x4bdecfa9, 0xf6bb4b60, 0xbebfbc70,
      0x289b7ec6, 0xeaa127fa, 0xd4ef3085, 0x04881d05,
      0xd9d4d039, 0xe6db99e5, 0x1fa27cf8, 0xc4ac5665,
      0xf4292244, 0x432aff97, 0xab9423a7, 0xfc93a039,
      0x655b59c3, 0x8f0ccc92, 0xffeff47d, 0x85845dd1,
      0x6fa87e4f, 0xfe2ce6e0, 0xa3014314, 0x4e0811a1,
      0xf7537e82, 0xbd3af235, 0x2ad7d2bb, 0xeb86d391]"

definition md5_S :: "nat list" where
  "md5_S =
     [
      7, 12, 17, 22, 7, 12, 17, 22, 7, 12, 17, 22, 7, 12, 17, 22,
      5, 9, 14, 20, 5, 9, 14, 20, 5, 9, 14, 20, 5, 9, 14, 20,
      4, 11, 16, 23, 4, 11, 16, 23, 4, 11, 16, 23, 4, 11, 16, 23,
      6, 10, 15, 21, 6, 10, 15, 21, 6, 10, 15, 21, 6, 10, 15, 21]"

definition word_of_bytes_le :: "char list \<Rightarrow> 32 word" where
  "word_of_bytes_le bs = foldr (\<lambda>b w. of_nat (of_char b) + 256 * w) bs 0"

definition bytes_le_of_nat :: "nat \<Rightarrow> nat \<Rightarrow> char list" where
  "bytes_le_of_nat len n = map (\<lambda>i. char_of (n div 256 ^ i)) [0..<len]"

definition md5_pad :: "char list \<Rightarrow> char list" where
  "md5_pad msg =
     msg @ [CHR 0x80] @ replicate ((119 - length msg mod 64) mod 64) (CHR 0x00)
       @ bytes_le_of_nat 8 (8 * length msg mod 2 ^ 64)"

fun chunks :: "nat \<Rightarrow> 'a list \<Rightarrow> 'a list list" where
  "chunks n xs = (if n = 0 \<or> xs = [] then [] else take n xs # chunks n (drop n xs))"

definition md5_round ::
  "32 word list \<Rightarrow> 32 word \<times> 32 word \<times> 32 word \<times> 32 word \<Rightarrow> nat
     \<Rightarrow> 32 word \<times> 32 word \<times> 32 word \<times> 32 word" where
  "md5_round m st i =
     (case st of (a, b, c, d) \<Rightarrow>
        let (f, g) =
              (if i < 16 then ((b AND c) OR (NOT b AND d), i)
               else if i < 32 then ((d AND b) OR (NOT d AND c), (5 * i + 1) mod 16)
               else if i < 48 then (b XOR c XOR d, (3 * i + 5) mod 16)
               else (c XOR (b OR NOT d), (7 * i) mod 16));
            f' = f + a + md5_K ! i + m ! g
        in (d, b + word_rotl (md5_S ! i) f', b, c))"

definition md5_block ::
  "32 word \<times> 32 word \<times> 32 word \<times> 32 word \<Rightarrow> char list
     \<Rightarrow> 32 word \<times> 32 word \<times> 32 word \<times> 32 word" where
  "md5_block st blk =
     (let m = map word_of_bytes_le (chunks 4 blk)
      in case (st, foldl (md5_round m) st [0..<64]) of
           ((a0, b0, c0, d0), (a, b, c, d)) \<Rightarrow> (a0 + a, b0 + b, c0 + c, d0 + d))"

definition md5_digest :: "char list \<Rightarrow> char list" where
  "md5_digest msg =
     (case foldl md5_block (0x67452301, 0xefcdab89, 0x98badcfe, 0x10325476)
             (chunks 64 (md5_pad msg)) of
        (a, b, c, d) \<Rightarrow> concat (map (\<lambda>w. bytes_le_of_nat 4 (unat w)) [a, b, c, d]))"

definition hex_of_bytes :: "char list \<Rightarrow> string" where
  "hex_of_bytes bs =
     concat (map (\<lambda>b. [''0123456789abcdef'' ! (of_char b div 16),
                        ''0123456789abcdef'' ! (of_char b mod 16)]) bs)"

definition md5_hexdigest :: "char list \<Rightarrow> string" where
  "md5_hexdigest msg = hex_of_bytes (md5_digest msg)"

section \<open>models.py\<close>

text \<open>
  An \<^verbatim>\<open>Optional\<close> field whose \<^verbatim>\<open>None\<close> the code tells from a value is an \<open>option\<close>;
  \<^verbatim>\<open>body: Optional[Any]\<close> is a \<open>json\<close>, whose \<open>JNull\<close> is \<^verbatim>\<open>None\<close>.  The field
  \<^verbatim>\<open>method\<close> is \<open>http_method\<close> here, the plain name being reserved.
\<close>

record ProxyRequest =
  url :: string
  http_method :: string
  headers :: "(string \<times> string) list option"
  body :: json
  params :: "(string \<times> json) list option"

record ProxyResponse =
  status_code :: int
  content :: string
  headers :: "(string \<times> string) list"
  from_cache :: bool
  cache_key :: "string option"

section \<open>generate_cache_key\<close>

text \<open>
  \<open>dict_or d alt\<close> is Python's \<^verbatim>\<open>d or alt\<close> on an optional dictionary: \<^verbatim>\<open>None\<close> and the
  empty dictionary are falsy.
\<close>

definition dict_or :: "('k \<times> 'v) list option \<Rightarrow> ('k \<times> 'v) list \<Rightarrow> ('k \<times> 'v) list" where
  "dict_or d alt = (case d of None \<Rightarrow> alt | Some kvs \<Rightarrow> if kvs = [] then alt else kvs)"

definition key_data :: "ProxyRequest \<Rightarrow> json" where
  "key_data request =
     JDict [(''url'', JStr (url request)),
            (''method'', JStr (http_method request)),
            (''params'', JDict (dict_or (params request) [])),
            (''body'', body request)]"

definition generate_cache_key :: "ProxyRequest \<Rightarrow> string" where
  "generate_cache_key request =
     (let key_string = dumps (key_data request)
      in md5_hexdigest (utf8_encode key_string))"

definition same_params ::
  "(string \<times> json) list option \<Rightarrow> (string \<times> json) list option \<Rightarrow> bool" where
  "same_params p q =
     (case (p, q) of
        (None, None) \<Rightarrow> True
      | (Some a, Some b) \<Rightarrow> same_json (JDict a) (JDict b)
      | _ \<Rightarrow> False)"

section \<open>str.lower, substring test, dict.get\<close>

text \<open>
  \<open>char_lower\<close> is \<^verbatim>\<open>str.lower()\<close> on one code point below 256: the letters A to Z and
  the upper-case letters of Latin-1 move up by 32.  \<open>str_in sub s\<close> is Python's
  \<^verbatim>\<open>sub in s\<close> on strings, \<open>dict_get d k dflt\<close> is \<^verbatim>\<open>d.get(k, dflt)\<close>.
\<close>

definition char_lower :: "char \<Rightarrow> char" where
  "char_lower c =
     (let n = (of_char c :: nat)
      in if (65 \<le> n \<and> n \<le> 90) \<or> (192 \<le> n \<and> n \<le> 222 \<and> n \<noteq> 215)
         then char_of (n + 32) else c)"

definition str_lower :: "string \<Rightarrow> string" where
  "str_lower s = map char_lower s"

fun str_in :: "string \<Rightarrow> string \<Rightarrow> bool" where
  "str_in sub [] = (sub = [])"
| "str_in sub (c # cs) = (take (length sub) (c # cs) = sub \<or> str_in sub cs)"

definition dict_get :: "('k \<times> 'v) list \<Rightarrow> 'k \<Rightarrow> 'v \<Rightarrow> 'v" where
  "dict_get d k dflt = (case map_of d k of None \<Rightarrow> dflt | Some v \<Rightarrow> v)"

section \<open>is_cacheable_response\<close>

definition is_cacheable_response :: "int \<Rightarrow> (string \<times> string) list \<Rightarrow> bool" where
  "is_cacheable_response status hdrs =
     (if status \<notin> set [200, 301, 302] then False
      else
        let cache_control = str_lower (dict_get hdrs ''cache-control'' '''')
        in if str_in ''no-store'' cache_control \<or> str_in ''no-cache'' cache_control
           then False
           else True)"

text \<open>
  The cacheability rule as the specification words it, for comparison with the
  function above: the \<^verbatim>\<open>Cache-Control\<close> header is found whatever the case of its name.
\<close>

definition spec_header_lookup :: "(string \<times> string) list \<Rightarrow> string \<Rightarrow> string" where
  "spec_header_lookup hdrs name =
     (case find (\<lambda>kv. str_lower (fst kv) = str_lower name) hdrs of
        None \<Rightarrow> ''''
      | Some kv \<Rightarrow> snd kv)"

definition spec_isCacheable :: "int \<Rightarrow> (string \<times> string) list \<Rightarrow> bool" where
  "spec_isCacheable statusCode hdrs =
     (statusCode \<in> {200, 301, 302}
      \<and> \<not> str_in ''no-store'' (str_lower (spec_header_lookup hdrs ''Cache-Control''))
      \<and> \<not> str_in ''no-cache'' (str_lower (spec_header_lookup hdrs ''Cache-Control'')))"

section \<open>config.py and the statistics\<close>

record Settings =
  host :: string
  port :: int
  cache_ttl :: int
  cache_backend :: string
  redis_url :: string
  max_cache_size :: int

record cache_stats =
  hits :: int
  misses :: int
  total_requests :: int

record stats_report = cache_stats +
  hit_rate :: real
  report_backend :: string

text \<open>
  Python floats are IEEE 754 doubles; a finite double is kept as the real number it
  denotes.  \<open>round_half_even\<close> rounds to the nearest integer and a tie to the even one.
  \<open>float_exponent x\<close> is the integer \<open>k\<close> with \<open>2^k \<le> x < 2^(k+1)\<close> for positive
  \<open>x\<close>.  \<open>fl x\<close> is the double nearest to \<open>x\<close>, a tie going to the even significand: 53
  significant bits, and steps of \<open>2^-1074\<close> below \<open>2^-1022\<close>.  Every arithmetic
  operation of the code is the exact operation followed by \<open>fl\<close>: \<^verbatim>\<open>hits / total\<close> on
  integers, the product with \<open>100\<close>, and \<^verbatim>\<open>round(x, 2)\<close>, which rounds the exact value
  of \<open>x\<close> to two decimals, a tie to the even digit, and returns the double nearest to
  that decimal.  Results from \<open>2^1024\<close> on, where the division raises and the product is
  infinite, are outside the model; they need counters beyond \<open>2^1000\<close>.
\<close>

definition pow2 :: "int \<Rightarrow> real" where
  "pow2 e = (if e \<ge> 0 then 2 ^ nat e else 1 / 2 ^ nat (- e))"

definition round_half_even :: "real \<Rightarrow> int" where
  "round_half_even y =
     (let f = \<lfloor>y\<rfloor>; d = y - of_int f
      in if d < 1 / 2 then f
         else if d > 1 / 2 then f + 1
         else if even f then f else f + 1)"

definition float_exponent :: "real \<Rightarrow> int" where
  "float_exponent x = (if x \<ge> 1 then bitlen \<lfloor>x\<rfloor> - 1 else - bitlen (\<lceil>1 / x\<rceil> - 1))"

definition fl :: "real \<Rightarrow> real" where
  "fl x =
     (if x = 0 then 0
      else
        let e = max (float_exponent \<bar>x\<bar> - 52) (- 1074);
            m = round_half_even (\<bar>x\<bar> / pow2 e)
        in sgn x * of_int m * pow2 e)"

definition py_round2 :: "real \<Rightarrow> real" where
  "py_round2 x = fl (of_int (round_half_even (x * 100)) / 100)"

text \<open>
  \<^verbatim>\<open>get_stats\<close> returns the three counters, the hit rate and the backend name.
\<close>

definition get_stats :: "Settings \<Rightarrow> cache_stats \<Rightarrow> stats_report" where
  "get_stats settings cs =
     (let total = total_requests cs;
          h = hits cs;
          rate = (if total > 0 then fl (fl (of_int h / of_int total) * 100) else 0)
      in \<lparr>hits = hits cs, misses = misses cs, total_requests = total_requests cs,
          hit_rate = py_round2 rate, report_backend = cache_backend settings\<rparr>)"

section \<open>The remote store and CacheManager\<close>

text \<open>
  A \<^verbatim>\<open>ProxyResponse\<close> is a mutable object: the heap is the list of the objects
  allocated so far and an address is an index into it.  The in-memory backend stores
  the address it is handed and returns that same address; the Redis backend stores what
  \<^verbatim>\<open>pickle.dumps\<close> captures, the object's value at that moment, and \<^verbatim>\<open>pickle.loads\<close>
  allocates a new object on every read.

  What lies outside the program during one request is an \<open>env\<close>: the clock readings
  seen by the cache read and by the cache write, the outcome of the HTTP call to the
  origin (an error, or status, content and headers), and whether the Redis command of
  the read or of the write fails.  The Redis server keeps a value until its expiry time
  and rejects \<^verbatim>\<open>SETEX\<close> with a time-to-live that is not positive.
\<close>

type_synonym addr = nat

record RedisCacheBackend =
  connected :: bool
  keyspace :: "(string \<times> (ProxyResponse \<times> real)) list"

record env =
  now_get :: real
  now_set :: real
  origin :: "error + (int \<times> string \<times> (string \<times> string) list)"
  redis_get_fails :: bool
  redis_set_fails :: bool

definition RedisCacheBackend_get ::
  "RedisCacheBackend \<Rightarrow> string \<Rightarrow> real \<Rightarrow> bool
     \<Rightarrow> (error + ProxyResponse option) \<times> RedisCacheBackend" where
  "RedisCacheBackend_get self key now fails =
     (let r = self\<lparr>connected := True\<rparr>
      in if fails then (Inl RedisError, r)
         else (case map_of (keyspace r) key of
                 None \<Rightarrow> (Inr None, r)
               | Some (data, expiry) \<Rightarrow>
                   if now < expiry then (Inr (Some data), r) else (Inr None, r)))"

definition RedisCacheBackend_set ::
  "RedisCacheBackend \<Rightarrow> string \<Rightarrow> ProxyResponse \<Rightarrow> int \<Rightarrow> real \<Rightarrow> bool
     \<Rightarrow> (error + unit) \<times> RedisCacheBackend" where
  "RedisCacheBackend_set self key val ttl now fails =
     (let r = self\<lparr>connected := True\<rparr>
      in if fails \<or> ttl \<le> 0 then (Inl RedisError, r)
         else (Inr (), r\<lparr>keyspace := (key, (val, now + real_of_int ttl)) #
                               od_delitem key (keyspace r)\<rparr>))"

datatype backend =
    Memory "addr MemoryCacheBackend"
  | Redis RedisCacheBackend

definition CacheManager_init :: "Settings \<Rightarrow> error + backend" where
  "CacheManager_init settings =
     (if cache_backend settings = ''memory'' then
        Inr (Memory (MemoryCacheBackend_init (max_cache_size settings) (cache_ttl settings)))
      else if cache_backend settings = ''redis'' then
        Inr (Redis \<lparr>connected = False, keyspace = []\<rparr>)
      else Inl ValueError)"

definition CacheManager_get ::
  "backend \<Rightarrow> ProxyResponse list \<Rightarrow> string \<Rightarrow> env
     \<Rightarrow> (error + addr option) \<times> backend \<times> ProxyResponse list" where
  "CacheManager_get b hp key e =
     (case b of
        Memory m \<Rightarrow>
          (case MemoryCacheBackend_get m key (now_get e) of
             (res, m') \<Rightarrow> (Inr res, Memory m', hp))
      | Redis r \<Rightarrow>
          (case RedisCacheBackend_get r key (now_get e) (redis_get_fails e) of
             (Inl err, r') \<Rightarrow> (Inl err, Redis r', hp)
           | (Inr None, r') \<Rightarrow> (Inr None, Redis r', hp)
           | (Inr (Some obj), r') \<Rightarrow> (Inr (Some (length hp)), Redis r', hp @ [obj])))"

definition CacheManager_set ::
  "backend \<Rightarrow> ProxyResponse list \<Rightarrow> string \<Rightarrow> addr \<Rightarrow> int \<Rightarrow> env
     \<Rightarrow> (error + unit) \<times> backend" where
  "CacheManager_set b hp key a ttl e =
     (case b of
        Memory m \<Rightarrow>
          (case MemoryCacheBackend_set m key a (Some ttl) (now_set e) of
             (res, m') \<Rightarrow> (res, Memory m'))
      | Redis r \<Rightarrow>
          (case RedisCacheBackend_set r key (hp ! a) ttl (now_set e) (redis_set_fails e) of
             (res, r') \<Rightarrow> (res, Redis r')))"

section \<open>process_proxy_request and the endpoints\<close>

text \<open>
  \<open>int_or x alt\<close> is Python's \<^verbatim>\<open>x or alt\<close> on an optional integer: \<^verbatim>\<open>None\<close> and \<open>0\<close> are
  falsy.  Every function returns the state it leaves behind, also when it raises.
\<close>

record state =
  stats :: cache_stats
  cache_manager :: backend
  heap :: "ProxyResponse list"

definition int_or :: "int option \<Rightarrow> int \<Rightarrow> int" where
  "int_or x alt = (case x of None \<Rightarrow> alt | Some n \<Rightarrow> if n = 0 then alt else n)"

definition make_http_request ::
  "ProxyRequest \<Rightarrow> env \<Rightarrow> ProxyResponse list \<Rightarrow> (error + addr) \<times> ProxyResponse list" where
  "make_http_request request e hp =
     (case origin e of
        Inl err \<Rightarrow> (Inl err, hp)
      | Inr (st, body_bytes, hdrs) \<Rightarrow>
          (Inr (length hp),
           hp @ [\<lparr>status_code = st, content = body_bytes, headers = hdrs,
                  from_cache = False, cache_key = None\<rparr>]))"

definition process_proxy_request ::
  "Settings \<Rightarrow> env \<Rightarrow> ProxyRequest \<Rightarrow> int option \<Rightarrow> state
     \<Rightarrow> (error + addr) \<times> state" where
  "process_proxy_request settings e request ttl s0 =
     (let s1 = s0\<lparr>stats := (stats s0)\<lparr>total_requests := total_requests (stats s0) + 1\<rparr>\<rparr>;
          key = generate_cache_key request
      in case CacheManager_get (cache_manager s1) (heap s1) key e of
           (Inl err, b, hp) \<Rightarrow> (Inl err, s1\<lparr>cache_manager := b, heap := hp\<rparr>)
         | (Inr (Some a), b, hp) \<Rightarrow>
             (Inr a,
              s1\<lparr>stats := (stats s1)\<lparr>hits := hits (stats s1) + 1\<rparr>,
                 cache_manager := b,
                 heap := hp[a := (hp ! a)\<lparr>from_cache := True, cache_key := Some key\<rparr>]\<rparr>)
         | (Inr None, b, hp) \<Rightarrow>
             (let s2 = s1\<lparr>stats := (stats s1)\<lparr>misses := misses (stats s1) + 1\<rparr>,
                          cache_manager := b, heap := hp\<rparr>
              in case make_http_request request e (heap s2) of
                   (Inl err, hp2) \<Rightarrow> (Inl err, s2\<lparr>heap := hp2\<rparr>)
                 | (Inr a, hp2) \<Rightarrow>
                     (let hp3 = hp2[a := (hp2 ! a)\<lparr>cache_key := Some key\<rparr>];
                          s3 = s2\<lparr>heap := hp3\<rparr>
                      in if is_cacheable_response (status_code (hp3 ! a))
                              (ProxyResponse.headers (hp3 ! a))
                         then
                           (let cache_ttl = int_or ttl (cache_ttl settings)
                            in case CacheManager_set (cache_manager s3) hp3 key a cache_ttl e of
                                 (Inl err, b') \<Rightarrow> (Inl err, s3\<lparr>cache_manager := b'\<rparr>)
                               | (Inr _, b') \<Rightarrow> (Inr a, s3\<lparr>cache_manager := b'\<rparr>))
                         else (Inr a, s3))))"

definition init_state :: "Settings \<Rightarrow> error + state" where
  "init_state settings =
     (case CacheManager_init settings of
        Inl err \<Rightarrow> Inl err
      | Inr b \<Rightarrow>
          Inr \<lparr>stats = \<lparr>hits = 0, misses = 0, total_requests = 0\<rparr>,
               cache_manager = b, heap = []\<rparr>)"

definition get_cache_info ::
  "env \<Rightarrow> string \<Rightarrow> state \<Rightarrow> (error + string \<times> bool \<times> int \<times> bool) \<times> state" where
  "get_cache_info e key s =
     (case CacheManager_get (cache_manager s) (heap s) key e of
        (Inl err, b, hp) \<Rightarrow> (Inl err, s\<lparr>cache_manager := b, heap := hp\<rparr>)
      | (Inr None, b, hp) \<Rightarrow> (Inl (HTTPException 404), s\<lparr>cache_manager := b, heap := hp\<rparr>)
      | (Inr (Some a), b, hp) \<Rightarrow>
          (Inr (key, True, status_code (hp ! a), from_cache (hp ! a)),
           s\<lparr>cache_manager := b, heap := hp\<rparr>))"

text \<open>
  The \<^verbatim>\<open>from_cache\<close> flags of the entries the store holds, in the store's order: for the
  in-memory backend the flag of the object each entry refers to, for Redis the flag in
  the stored value.
\<close>

definition stored_flags :: "state \<Rightarrow> bool list" where
  "stored_flags s =
     (case cache_manager s of
        Memory m \<Rightarrow> map (\<lambda>kv. from_cache (heap s ! fst (snd kv))) (cache m)
      | Redis r \<Rightarrow> map (\<lambda>kv. from_cache (fst (snd kv))) (keyspace r))"

text \<open>
  A run of the proxy: the requests are processed one after the other, each with its own
  \<open>env\<close> and optional TTL, a raising request leaving the state for the next one.  Each
  request is classified by what its cache read did: it raised, it found nothing (a
  miss), or it found a value (a hit).
\<close>

datatype outcome = Hit | Miss | ReadFailed

definition classify :: "env \<Rightarrow> ProxyRequest \<Rightarrow> state \<Rightarrow> outcome" where
  "classify e request s =
     (case fst (CacheManager_get (cache_manager s) (heap s) (generate_cache_key request) e) of
        Inl _ \<Rightarrow> ReadFailed
      | Inr None \<Rightarrow> Miss
      | Inr (Some _) \<Rightarrow> Hit)"

fun run_requests ::
  "Settings \<Rightarrow> state \<Rightarrow> (env \<times> ProxyRequest \<times> int option) list \<Rightarrow> state \<times> outcome list" where
  "run_requests settings s [] = (s, [])"
| "run_requests settings s ((e, request, ttl) # calls) =
     (case run_requests settings (snd (process_proxy_request settings e request ttl s)) calls of
        (s', os) \<Rightarrow> (s', classify e request s # os))"

section \<open>Example inputs\<close>

text \<open>The settings read from an empty environment (\<^verbatim>\<open>Settings.__init__\<close>).\<close>

definition default_settings :: Settings where
  "default_settings =
     \<lparr>host = ''0.0.0.0'', port = 8000, cache_ttl = 300, cache_backend = ''memory'',
      redis_url = ''redis://localhost:6379'', max_cache_size = 1000\<rparr>"

text \<open>
  The request, the answers of the origin and the two initial states used in the
  examples: a fresh proxy on the in-memory backend and one on Redis.
\<close>

definition example_request :: ProxyRequest where
  "example_request =
     \<lparr>url = ''https://example.com/a'', http_method = ''GET'', headers = None,
      body = JNull, params = None\<rparr>"

definition example_env :: "real \<Rightarrow> env" where
  "example_env t =
     \<lparr>now_get = t, now_set = t,
      origin = Inr (200, ''hello'', [(''content-type'', ''text/plain'')]),
      redis_get_fails = False, redis_set_fails = False\<rparr>"

definition memory_state0 :: state where
  "memory_state0 =
     \<lparr>stats = \<lparr>hits = 0, misses = 0, total_requests = 0\<rparr>,
      cache_manager = Memory (MemoryCacheBackend_init 1000 300), heap = []\<rparr>"

definition redis_state0 :: state where
  "redis_state0 =
     \<lparr>stats = \<lparr>hits = 0, misses = 0, total_requests = 0\<rparr>,
      cache_manager = Redis \<lparr>connected = False, keyspace = []\<rparr>, heap = []\<rparr>"

definition example_response :: "bool \<Rightarrow> ProxyResponse" where
  "example_response fc =
     \<lparr>status_code = 200, content = ''hello'', headers = [(''content-type'', ''text/plain'')],
      from_cache = fc, cache_key = Some (generate_cache_key example_request)\<rparr>"

text \<open>
  A Redis proxy whose write fails, and an origin that answers 404.
\<close>

definition redis_settings :: Settings where
  "redis_settings = default_settings\<lparr>cache_backend := ''redis''\<rparr>"

definition write_failing_env :: env where
  "write_failing_env = (example_env 0)\<lparr>redis_set_fails := True\<rparr>"

definition not_found_env :: env where
  "not_found_env = (example_env 0)\<lparr>origin := Inr (404, ''gone'', [])\<rparr>"

text \<open>The same request twice, one second apart.\<close>

definition example_calls :: "(env \<times> ProxyRequest \<times> int option) list" where
  "example_calls =
     [(example_env 0, example_request, None), (example_env 1, example_request, None)]"

section \<open>Properties of the in-memory store\<close>

lemma od_delitem_length: "length (od_delitem k d) \<le> length d"
  by (simp add: od_delitem_def)

lemma od_delitem_keys: "keys_of (od_delitem k d) = removeAll k (keys_of d)"
  by (induction d) (auto simp: od_delitem_def keys_of_def)

lemma od_delitem_absent: "map_of (od_delitem k d) k = None"
  by (induction d) (auto simp: od_delitem_def)

lemma od_delitem_other: "k' \<noteq> k \<Longrightarrow> map_of (od_delitem k d) k' = map_of d k'"
  by (induction d) (auto simp: od_delitem_def)

lemma od_delitem_id: "map_of d k = None \<Longrightarrow> od_delitem k d = d"
  by (induction d) (auto simp: od_delitem_def split: if_splits)

lemma od_delitem_present_length:
  "map_of d k \<noteq> None \<Longrightarrow> length (od_delitem k d) < length d"
proof (induction d)
  case Nil
  then show ?case by simp
next
  case (Cons a d)
  show ?case
  proof (cases "fst a = k")
    case True
    have "length (filter (\<lambda>kv. fst kv \<noteq> k) d) \<le> length d"
      by (rule length_filter_le)
    then have "length (filter (\<lambda>kv. fst kv \<noteq> k) d) < Suc (length d)"
      by (rule le_imp_less_Suc)
    with True show ?thesis by (simp add: od_delitem_def)
  next
    case False
    with Cons show ?thesis by (cases a) (auto simp: od_delitem_def)
  qed
qed

lemma od_move_to_end_length: "length (od_move_to_end k d) \<le> length d"
proof (cases "map_of d k")
  case None
  then show ?thesis by (simp add: od_move_to_end_def)
next
  case (Some v)
  then have "length (od_delitem k d) < length d"
    by (simp add: od_delitem_present_length)
  with Some show ?thesis by (simp add: od_move_to_end_def)
qed

lemma od_setitem_length: "length (od_setitem k v d) \<le> Suc (length d)"
  by (simp add: od_setitem_def)

lemma od_setitem_lookup: "map_of (od_setitem k v d) k = Some v"
  by (induction d) (auto simp: od_setitem_def od_contains_def split: if_splits)

lemma od_setitem_absent: "map_of d k = None \<Longrightarrow> od_setitem k v d = d @ [(k, v)]"
  by (simp add: od_setitem_def od_contains_def)

lemma delete_max_size: "max_size (MemoryCacheBackend_delete s k) = max_size s"
  by (simp add: MemoryCacheBackend_delete_def)

lemma delete_length: "length (cache (MemoryCacheBackend_delete s k)) \<le> length (cache s)"
  by (simp add: MemoryCacheBackend_delete_def od_delitem_length)

lemma get_max_size: "max_size (snd (MemoryCacheBackend_get s k now)) = max_size s"
  by (simp add: MemoryCacheBackend_get_def delete_max_size split: option.splits prod.splits)

lemma get_length: "length (cache (snd (MemoryCacheBackend_get s k now))) \<le> length (cache s)"
  by (simp add: MemoryCacheBackend_get_def delete_length od_move_to_end_length
      split: option.splits prod.splits)

lemma exists_max_size: "max_size (snd (MemoryCacheBackend_exists s k now)) = max_size s"
  by (simp add: MemoryCacheBackend_exists_def delete_max_size split: option.splits prod.splits)

lemma exists_length: "length (cache (snd (MemoryCacheBackend_exists s k now))) \<le> length (cache s)"
  by (simp add: MemoryCacheBackend_exists_def delete_length split: option.splits prod.splits)

lemma set_max_size: "max_size (snd (MemoryCacheBackend_set s k v ttl now)) = max_size s"
  by (simp add: MemoryCacheBackend_set_def Let_def split: sum.splits)

lemma set_bounded:
  assumes "1 \<le> max_size s" and "int (length (cache s)) \<le> max_size s"
  shows "int (length (cache (snd (MemoryCacheBackend_set s k v ttl now)))) \<le> max_size s"
proof -
  define c1 where "c1 = (if od_contains k (cache s) then od_delitem k (cache s) else cache s)"
  have c1: "length c1 \<le> length (cache s)"
    by (simp add: c1_def od_delitem_length)
  show ?thesis
  proof (cases "int (length c1) \<ge> max_size s")
    case True
    with assms c1 have "c1 \<noteq> []" by auto
    then obtain x rest where c1eq: "c1 = x # rest" by (cases c1) auto
    have "length (od_setitem k (v, now + real_of_int (case ttl of None \<Rightarrow> default_ttl s | Some t \<Rightarrow> t)) rest) \<le> Suc (length rest)"
      by (rule od_setitem_length)
    with c1 c1eq assms True show ?thesis
      by (simp add: MemoryCacheBackend_set_def Let_def c1_def[symmetric] od_popitem_first_def)
  next
    case False
    have "length (od_setitem k (v, now + real_of_int (case ttl of None \<Rightarrow> default_ttl s | Some t \<Rightarrow> t)) c1) \<le> Suc (length c1)"
      by (rule od_setitem_length)
    with False show ?thesis
      by (simp add: MemoryCacheBackend_set_def Let_def c1_def[symmetric])
  qed
qed

lemma step_max_size: "max_size (store_step s opn) = max_size s"
  by (cases opn) (simp_all add: get_max_size set_max_size delete_max_size exists_max_size)

lemma step_bounded:
  assumes "1 \<le> max_size s" and "int (length (cache s)) \<le> max_size s"
  shows "int (length (cache (store_step s opn))) \<le> max_size s"
proof (cases opn)
  case (OpGet k now)
  have "length (cache (snd (MemoryCacheBackend_get s k now))) \<le> length (cache s)"
    by (rule get_length)
  with assms OpGet show ?thesis by simp
next
  case (OpSet k v ttl now)
  with assms show ?thesis by (simp add: set_bounded)
next
  case (OpDelete k)
  have "length (cache (MemoryCacheBackend_delete s k)) \<le> length (cache s)"
    by (rule delete_length)
  with assms OpDelete show ?thesis by simp
next
  case (OpExists k now)
  have "length (cache (snd (MemoryCacheBackend_exists s k now))) \<le> length (cache s)"
    by (rule exists_length)
  with assms OpExists show ?thesis by simp
qed

lemma run_bounded:
  "1 \<le> max_size s \<Longrightarrow> int (length (cache s)) \<le> max_size s \<Longrightarrow>
   max_size (store_run s ops) = max_size s \<and>
   int (length (cache (store_run s ops))) \<le> max_size s"
proof (induction ops arbitrary: s)
  case Nil
  then show ?case by (simp add: store_run_def)
next
  case (Cons opn ops)
  have m: "max_size (store_step s opn) = max_size s" by (rule step_max_size)
  have b: "int (length (cache (store_step s opn))) \<le> max_size s"
    using Cons.prems by (rule step_bounded)
  from Cons.IH[of "store_step s opn"] m b Cons.prems
  show ?case by (simp add: store_run_def)
qed

lemma map_of_tl_None: "map_of d k = None \<Longrightarrow> map_of (tl d) k = None"
  by (cases d) (auto split: if_splits)

lemma set_evicts_lru:
  assumes "map_of (cache s) k = None" and "int (length (cache s)) = max_size s"
    and "1 \<le> max_size s"
  shows "MemoryCacheBackend_set s k v ttl now =
    (Inr (), s\<lparr>cache := tl (cache s) @
       [(k, (v, now + real_of_int (case ttl of None \<Rightarrow> default_ttl s | Some t \<Rightarrow> t)))]\<rparr>)"
proof -
  from assms have ne: "cache s \<noteq> []" by auto
  then obtain x rest where eq: "cache s = x # rest" by (cases "cache s") auto
  from assms(1) have "map_of (tl (cache s)) k = None" by (rule map_of_tl_None)
  with eq have r: "map_of rest k = None" by simp
  show ?thesis
    using assms(1,2) eq r
    by (simp add: MemoryCacheBackend_set_def Let_def od_contains_def od_popitem_first_def
        od_setitem_absent)
qed

lemma set_below_capacity:
  assumes "map_of (cache s) k = None" and "int (length (cache s)) < max_size s"
  shows "MemoryCacheBackend_set s k v ttl now =
    (Inr (), s\<lparr>cache := cache s @
       [(k, (v, now + real_of_int (case ttl of None \<Rightarrow> default_ttl s | Some t \<Rightarrow> t)))]\<rparr>)"
  using assms
  by (simp add: MemoryCacheBackend_set_def Let_def od_contains_def od_setitem_absent)

lemma get_absent:
  "map_of (cache s) k = None \<Longrightarrow> MemoryCacheBackend_get s k now = (None, s)"
  by (simp add: MemoryCacheBackend_get_def)

lemma get_expired:
  "map_of (cache s) k = Some (v, e) \<Longrightarrow> now > e \<Longrightarrow>
   MemoryCacheBackend_get s k now = (None, s\<lparr>cache := od_delitem k (cache s)\<rparr>)"
  by (simp add: MemoryCacheBackend_get_def MemoryCacheBackend_delete_def od_contains_def)

lemma get_fresh:
  "map_of (cache s) k = Some (v, e) \<Longrightarrow> now \<le> e \<Longrightarrow>
   MemoryCacheBackend_get s k now = (Some v, s\<lparr>cache := od_delitem k (cache s) @ [(k, (v, e))]\<rparr>)"
  by (simp add: MemoryCacheBackend_get_def od_move_to_end_def)

lemma lru_example:
  fixes va vb vc :: "'v"
  assumes "a \<noteq> b" "a \<noteq> c" "b \<noteq> c"
    and fresh: "t3 \<le> t1 + real_of_int (case ttl1 of None \<Rightarrow> dt | Some t \<Rightarrow> t)"
  shows "keys_of (cache (store_run (MemoryCacheBackend_init 2 dt)
           [OpSet a va ttl1 t1, OpSet b vb ttl2 t2, OpGet a t3, OpSet c vc ttl3 t4])) = [a, c]"
proof -
  define ea where "ea = t1 + real_of_int (case ttl1 of None \<Rightarrow> dt | Some t \<Rightarrow> t)"
  define eb where "eb = t2 + real_of_int (case ttl2 of None \<Rightarrow> dt | Some t \<Rightarrow> t)"
  define ec where "ec = t4 + real_of_int (case ttl3 of None \<Rightarrow> dt | Some t \<Rightarrow> t)"
  define s0 :: "'v MemoryCacheBackend" where "s0 = MemoryCacheBackend_init 2 dt"
  define s1 where "s1 = s0\<lparr>cache := [(a, (va, ea))]\<rparr>"
  define s2 where "s2 = s0\<lparr>cache := [(a, (va, ea)), (b, (vb, eb))]\<rparr>"
  define s3 where "s3 = s0\<lparr>cache := [(b, (vb, eb)), (a, (va, ea))]\<rparr>"
  define s4 where "s4 = s0\<lparr>cache := [(a, (va, ea)), (c, (vc, ec))]\<rparr>"
  have 1: "MemoryCacheBackend_set s0 a va ttl1 t1 = (Inr (), s1)"
    by (simp add: set_below_capacity s0_def s1_def ea_def MemoryCacheBackend_init_def
        cong: option.case_cong)
  have 2: "MemoryCacheBackend_set s1 b vb ttl2 t2 = (Inr (), s2)"
    using assms(1)
    by (simp add: set_below_capacity s0_def s1_def s2_def eb_def MemoryCacheBackend_init_def
        cong: option.case_cong)
  have "map_of (cache s2) a = Some (va, ea)" by (simp add: s2_def)
  moreover have "t3 \<le> ea" using fresh by (simp add: ea_def)
  ultimately have "MemoryCacheBackend_get s2 a t3 =
      (Some va, s2\<lparr>cache := od_delitem a (cache s2) @ [(a, (va, ea))]\<rparr>)"
    by (rule get_fresh)
  then have 3: "MemoryCacheBackend_get s2 a t3 = (Some va, s3)"
    using assms(1) by (simp add: s2_def s3_def od_delitem_def)
  have 4: "MemoryCacheBackend_set s3 c vc ttl3 t4 = (Inr (), s4)"
    using assms(2,3)
    by (simp add: set_evicts_lru s0_def s3_def s4_def ec_def MemoryCacheBackend_init_def
        cong: option.case_cong)
  show ?thesis
    by (simp add: store_run_def s0_def[symmetric] 1 2 3 4) (simp add: s4_def keys_of_def)
qed

lemma set_stores:
  assumes "fst (MemoryCacheBackend_set s k v ttl now) = Inr ()"
  shows "map_of (cache (snd (MemoryCacheBackend_set s k v ttl now))) k =
    Some (v, now + real_of_int (case ttl of None \<Rightarrow> default_ttl s | Some t \<Rightarrow> t))"
  using assms
  by (auto simp: MemoryCacheBackend_set_def Let_def od_setitem_lookup split: sum.splits if_splits)

lemma set_succeeds:
  assumes "1 \<le> max_size s" and "int (length (cache s)) \<le> max_size s"
  shows "fst (MemoryCacheBackend_set s k v ttl now) = Inr ()"
proof -
  define c1 where "c1 = (if od_contains k (cache s) then od_delitem k (cache s) else cache s)"
  show ?thesis
  proof (cases "int (length c1) \<ge> max_size s")
    case True
    with assms have "c1 \<noteq> []" by auto
    then obtain x rest where "c1 = x # rest" by (cases c1) auto
    with True show ?thesis
      by (simp add: MemoryCacheBackend_set_def Let_def c1_def[symmetric] od_popitem_first_def)
  next
    case False
    then show ?thesis
      by (simp add: MemoryCacheBackend_set_def Let_def c1_def[symmetric])
  qed
qed

lemma delete_default_ttl: "default_ttl (MemoryCacheBackend_delete s k) = default_ttl s"
  by (simp add: MemoryCacheBackend_delete_def)

lemma step_default_ttl: "default_ttl (store_step s opn) = default_ttl s"
  by (cases opn)
    (simp_all add: MemoryCacheBackend_get_def MemoryCacheBackend_set_def
      MemoryCacheBackend_exists_def delete_default_ttl Let_def
      split: option.splits prod.splits sum.splits)

lemma run_default_ttl: "default_ttl (store_run s ops) = default_ttl s"
  by (induction ops arbitrary: s) (simp_all add: store_run_def step_default_ttl)

text \<open>
  Claim C5.  Start from the store \<^verbatim>\<open>MemoryCacheBackend(max_size=ms, default_ttl=dt)\<close> with
  \<open>ms \<ge> 1\<close> and run any sequence of get/set/delete/exists operations.  In the state
  \<open>s\<close> reached, the number of entries is at most \<open>ms\<close>.  If the store is full and a
  key that is not stored is set, the call succeeds, the entry at the head of the access
  order (the least recently used one) is dropped and the new entry is appended behind
  all the others.  Concretely, with \<open>max_size = 2\<close> and three different keys, after
  \<open>set(a)\<close>, \<open>set(b)\<close>, a \<open>get(a)\<close> that finds \<open>a\<close> unexpired, and \<open>set(c)\<close>, the
  stored keys are \<open>a\<close> and \<open>c\<close>: \<open>b\<close> was evicted, not \<open>a\<close>.
\<close>

theorem memory_store_bounded_lru:
  fixes s :: "'v MemoryCacheBackend" and va vb vc :: "'w"
  assumes "1 \<le> ms" and "s = store_run (MemoryCacheBackend_init ms dt) ops"
  shows "int (length (cache s)) \<le> ms
    \<and> (\<forall>k v ttl now.
          map_of (cache s) k = None \<and> int (length (cache s)) = ms \<longrightarrow>
          MemoryCacheBackend_set s k v ttl now =
            (Inr (), s\<lparr>cache := tl (cache s) @
               [(k, (v, now + real_of_int (case ttl of None \<Rightarrow> dt | Some t \<Rightarrow> t)))]\<rparr>))
    \<and> (a \<noteq> b \<and> a \<noteq> c \<and> b \<noteq> c
          \<and> t3 \<le> t1 + real_of_int (case ttl1 of None \<Rightarrow> dt' | Some t \<Rightarrow> t) \<longrightarrow>
        keys_of (cache (store_run (MemoryCacheBackend_init 2 dt')
          [OpSet a va ttl1 t1, OpSet b vb ttl2 t2, OpGet a t3, OpSet c vc ttl3 t4])) = [a, c])"
proof -
  let ?i = "MemoryCacheBackend_init ms dt :: 'v MemoryCacheBackend"
  have i: "max_size ?i = ms" "cache ?i = []" "default_ttl ?i = dt"
    by (simp_all add: MemoryCacheBackend_init_def)
  from assms(1) i have "max_size (store_run ?i ops) = max_size ?i \<and>
      int (length (cache (store_run ?i ops))) \<le> max_size ?i"
    by (intro run_bounded) simp_all
  with assms(2) i have m: "max_size s = ms" and b: "int (length (cache s)) \<le> ms"
    by simp_all
  have d: "default_ttl s = dt"
    using assms(2) i by (simp add: run_default_ttl)
  have e: "MemoryCacheBackend_set s k v ttl now =
            (Inr (), s\<lparr>cache := tl (cache s) @
               [(k, (v, now + real_of_int (case ttl of None \<Rightarrow> dt | Some t \<Rightarrow> t)))]\<rparr>)"
    if "map_of (cache s) k = None" and "int (length (cache s)) = ms" for k v ttl now
    using set_evicts_lru[of s k v ttl now] that m d assms(1) by (simp cong: option.case_cong)
  have x: "keys_of (cache (store_run (MemoryCacheBackend_init 2 dt')
          [OpSet a va ttl1 t1, OpSet b vb ttl2 t2, OpGet a t3, OpSet c vc ttl3 t4])) = [a, c]"
    if "a \<noteq> b" "a \<noteq> c" "b \<noteq> c"
      "t3 \<le> t1 + real_of_int (case ttl1 of None \<Rightarrow> dt' | Some t \<Rightarrow> t)"
    using that by (rule lru_example)
  from b e x show ?thesis by blast
qed

theorem memory_store_bounded_lru_witness:
  "(1::int) \<le> 2
   \<and> (let s = store_run (MemoryCacheBackend_init 2 300)
                 [OpSet ''a'' (10::nat) None 0, OpSet ''b'' 20 (Some 5) 1, OpGet ''a'' 2]
      in int (length (cache s)) \<le> 2
       \<and> map_of (cache s) ''c'' = None \<and> int (length (cache s)) = 2
       \<and> MemoryCacheBackend_set s ''c'' 30 None 3 =
           (Inr (), s\<lparr>cache := [(''a'', (10, 300)), (''c'', (30, 303))]\<rparr>))
   \<and> ''a'' \<noteq> ''b'' \<and> ''a'' \<noteq> ''c'' \<and> ''b'' \<noteq> ''c'' \<and> (2::real) \<le> 0 + real_of_int 300
   \<and> keys_of (cache (store_run (MemoryCacheBackend_init 2 300)
          [OpSet ''a'' (10::nat) None 0, OpSet ''b'' 20 (Some 5) 1, OpGet ''a'' 2,
           OpSet ''c'' 30 None 3])) = [''a'', ''c'']"
proof -
  define s :: "nat MemoryCacheBackend" where
    "s = store_run (MemoryCacheBackend_init 2 300)
           [OpSet ''a'' (10::nat) None 0, OpSet ''b'' 20 (Some 5) 1, OpGet ''a'' 2]"
  have c: "cache s = [(''b'', (20, 6)), (''a'', (10, 300))]"
    by (simp add: s_def store_run_def MemoryCacheBackend_init_def MemoryCacheBackend_set_def
        MemoryCacheBackend_get_def Let_def od_contains_def od_delitem_def od_setitem_def
        od_move_to_end_def od_popitem_first_def)
  have h: "(1::int) \<le> 2" by simp
  note t = memory_store_bounded_lru[OF h s_def, where a = "''a''" and b = "''b''" and c = "''c''"
      and ?t1.0 = 0 and ?t3.0 = 2 and ?ttl1.0 = None and dt' = 300 and va = "10::nat" and vb = 20
      and vc = 30 and ?ttl2.0 = "Some 5" and ?t2.0 = 1 and ?ttl3.0 = None and ?t4.0 = 3]
  from t have 1: "int (length (cache s)) \<le> 2" by blast
  from t c have 2: "MemoryCacheBackend_set s ''c'' 30 None 3 =
           (Inr (), s\<lparr>cache := [(''a'', (10, 300)), (''c'', (30, 303))]\<rparr>)"
    by simp
  from t have 3: "keys_of (cache (store_run (MemoryCacheBackend_init 2 300)
          [OpSet ''a'' (10::nat) None 0, OpSet ''b'' 20 (Some 5) 1, OpGet ''a'' 2,
           OpSet ''c'' 30 None 3])) = [''a'', ''c'']"
    by simp
  from 1 2 3 c show ?thesis by (simp add: s_def[symmetric] Let_def)
qed

text \<open>
  Claim C6.  \<^verbatim>\<open>MemoryCacheBackend.get(key)\<close> at clock reading \<open>now\<close>: a key that is not
  stored gives \<open>None\<close> and leaves the store alone; a stored key whose expiry time is
  before \<open>now\<close> is deleted and the result is \<open>None\<close>; a stored key with
  \<open>now \<le> expiry\<close> gives the stored value and the entry moves to the last
  (most recently used) position.  A \<open>set(k, v, ttl=1)\<close> at time \<open>t0\<close> succeeds on every
  store within its bound; after it, \<open>get(k)\<close> returns \<open>v\<close> at any time up to \<open>t0 + 1\<close>
  (in particular immediately), and from \<open>t0 + 2\<close> on it returns \<open>None\<close> and removes the
  entry.
\<close>

theorem memory_get_semantics:
  fixes s :: "'v MemoryCacheBackend"
  shows "(map_of (cache s) k = None \<longrightarrow> MemoryCacheBackend_get s k now = (None, s))
    \<and> (map_of (cache s) k = Some (v, e) \<and> now > e \<longrightarrow>
         MemoryCacheBackend_get s k now = (None, s\<lparr>cache := od_delitem k (cache s)\<rparr>)
         \<and> map_of (od_delitem k (cache s)) k = None)
    \<and> (map_of (cache s) k = Some (v, e) \<and> now \<le> e \<longrightarrow>
         MemoryCacheBackend_get s k now =
           (Some v, s\<lparr>cache := od_delitem k (cache s) @ [(k, (v, e))]\<rparr>))
    \<and> (1 \<le> max_size s \<and> int (length (cache s)) \<le> max_size s \<longrightarrow>
         fst (MemoryCacheBackend_set s k v (Some 1) t0) = Inr ())
    \<and> (fst (MemoryCacheBackend_set s k v (Some 1) t0) = Inr () \<longrightarrow>
         (let s' = snd (MemoryCacheBackend_set s k v (Some 1) t0) in
            (t \<le> t0 + 1 \<longrightarrow> fst (MemoryCacheBackend_get s' k t) = Some v)
          \<and> (t0 + 2 \<le> t \<longrightarrow>
               fst (MemoryCacheBackend_get s' k t) = None
             \<and> map_of (cache (snd (MemoryCacheBackend_get s' k t))) k = None)))"
proof -
  have a: "MemoryCacheBackend_get s k now = (None, s)" if "map_of (cache s) k = None"
    using that by (rule get_absent)
  have b: "MemoryCacheBackend_get s k now = (None, s\<lparr>cache := od_delitem k (cache s)\<rparr>)
           \<and> map_of (od_delitem k (cache s)) k = None"
    if "map_of (cache s) k = Some (v, e)" "now > e"
    using that by (simp add: get_expired od_delitem_absent)
  have c: "MemoryCacheBackend_get s k now =
           (Some v, s\<lparr>cache := od_delitem k (cache s) @ [(k, (v, e))]\<rparr>)"
    if "map_of (cache s) k = Some (v, e)" "now \<le> e"
    using that by (rule get_fresh)
  have d: "fst (MemoryCacheBackend_set s k v (Some 1) t0) = Inr ()"
    if "1 \<le> max_size s" "int (length (cache s)) \<le> max_size s"
    using that by (rule set_succeeds)
  have e: "(t \<le> t0 + 1 \<longrightarrow> fst (MemoryCacheBackend_get s' k t) = Some v)
          \<and> (t0 + 2 \<le> t \<longrightarrow>
               fst (MemoryCacheBackend_get s' k t) = None
             \<and> map_of (cache (snd (MemoryCacheBackend_get s' k t))) k = None)"
    if ok: "fst (MemoryCacheBackend_set s k v (Some 1) t0) = Inr ()"
      and s': "s' = snd (MemoryCacheBackend_set s k v (Some 1) t0)" for s'
  proof -
    from ok have "map_of (cache (snd (MemoryCacheBackend_set s k v (Some 1) t0))) k =
        Some (v, t0 + real_of_int (case Some 1 of None \<Rightarrow> default_ttl s | Some t \<Rightarrow> t))"
      by (rule set_stores)
    with s' have m: "map_of (cache s') k = Some (v, t0 + 1)" by simp
    have "fst (MemoryCacheBackend_get s' k t) = Some v" if "t \<le> t0 + 1"
      using get_fresh[OF m that] by simp
    moreover have "fst (MemoryCacheBackend_get s' k t) = None
        \<and> map_of (cache (snd (MemoryCacheBackend_get s' k t))) k = None" if "t0 + 2 \<le> t"
    proof -
      from that have "t > t0 + 1" by simp
      from get_expired[OF m this] show ?thesis by (simp add: od_delitem_absent)
    qed
    ultimately show ?thesis by blast
  qed
  from a b c d e show ?thesis unfolding Let_def by blast
qed

theorem memory_get_semantics_witness:
  "(let s0 = MemoryCacheBackend_init 2 300 :: nat MemoryCacheBackend;
        s1 = snd (MemoryCacheBackend_set s0 ''k'' 7 (Some 1) 100)
    in map_of (cache s0) ''k'' = None
     \<and> MemoryCacheBackend_get s0 ''k'' 100 = (None, s0)
     \<and> 1 \<le> max_size s0 \<and> int (length (cache s0)) \<le> max_size s0
     \<and> fst (MemoryCacheBackend_set s0 ''k'' 7 (Some 1) 100) = Inr ()
     \<and> map_of (cache s1) ''k'' = Some (7, 101)
     \<and> (100::real) \<le> 101 \<and> (100::real) \<le> 100 + 1
     \<and> MemoryCacheBackend_get s1 ''k'' 100 = (Some 7, s1)
     \<and> fst (MemoryCacheBackend_get s1 ''k'' 100) = Some 7
     \<and> (102::real) > 101 \<and> (100::real) + 2 \<le> 102
     \<and> MemoryCacheBackend_get s1 ''k'' 102 = (None, s0)
     \<and> fst (MemoryCacheBackend_get s1 ''k'' 102) = None)"
proof -
  define s0 :: "nat MemoryCacheBackend" where "s0 = MemoryCacheBackend_init 2 300"
  define s1 where "s1 = snd (MemoryCacheBackend_set s0 ''k'' 7 (Some 1) 100)"
  have c0: "cache s0 = []" "max_size s0 = 2"
    by (simp_all add: s0_def MemoryCacheBackend_init_def)
  have s1: "s1 = s0\<lparr>cache := [(''k'', (7, 101))]\<rparr>"
    by (simp add: s1_def s0_def MemoryCacheBackend_init_def MemoryCacheBackend_set_def Let_def
        od_contains_def od_setitem_def)
  have c1: "map_of (cache s1) ''k'' = Some (7, 101)" by (simp add: s1)
  note t0 = memory_get_semantics[of s0 "''k''" 100 7 101 100 100]
  note t1 = memory_get_semantics[of s1 "''k''" 100 7 101 100 100]
  note t2 = memory_get_semantics[of s1 "''k''" 102 7 101 100 100]
  note t3 = memory_get_semantics[of s0 "''k''" 100 7 101 100 102]
  from t0 c0 have 1: "MemoryCacheBackend_get s0 ''k'' 100 = (None, s0)"
    and 2: "fst (MemoryCacheBackend_set s0 ''k'' 7 (Some 1) 100) = Inr ()"
    by simp_all
  from t1 c1 have 3: "MemoryCacheBackend_get s1 ''k'' 100 = (Some 7, s1)"
    by (simp add: s1 od_delitem_def)
  from t2 c1 have 4: "MemoryCacheBackend_get s1 ''k'' 102 = (None, s0)"
    by (simp add: s1 od_delitem_def s0_def MemoryCacheBackend_init_def)
  from t0 2 have 5: "fst (MemoryCacheBackend_get s1 ''k'' 100) = Some 7"
    by (simp add: s1_def[symmetric] Let_def)
  from t3 2 have 6: "fst (MemoryCacheBackend_get s1 ''k'' 102) = None"
    by (simp add: s1_def[symmetric] Let_def)
  from c0 c1 1 2 3 4 5 6 show ?thesis
    by (simp add: s0_def[symmetric] s1_def[symmetric] Let_def)
qed

section \<open>Properties of key derivation\<close>

lemma key_order:
  "sort_key fst [(''url'', a), (''method'', b), (''params'', c), (''body'', d)]
   = [(''body'', d), (''method'', b), (''params'', c), (''url'', a)]"
  by simp

lemma insort_key_map:
  "(\<And>x. f (g x) = f x) \<Longrightarrow> insort_key f (g x) (map g xs) = map g (insort_key f x xs)"
  by (induction xs) simp_all

lemma sort_key_map:
  "(\<And>x. f (g x) = f x) \<Longrightarrow> sort_key f (map g xs) = map g (sort_key f xs)"
  by (induction xs) (simp_all add: insort_key_map)

lemma sort_key_idem: "sort_key f (sort_key f xs) = sort_key f xs"
  by (simp add: sort_key_id_if_sorted)

lemma dumps_canon: "dumps (canon v) = dumps v"
proof (induction v)
  case (JList xs)
  then have "map (dumps \<circ> canon) xs = map dumps xs" by (intro map_cong) simp_all
  then show ?case by (simp del: map_eq_conv)
next
  case (JDict kvs)
  let ?g = "\<lambda>kv. (fst kv, canon (snd kv))"
  let ?h = "\<lambda>kv. encode_basestring_ascii (fst kv) @ '': '' @ dumps (snd kv)"
  have m: "sort_key fst (map ?g kvs) = map ?g (sort_key fst kvs)"
    by (rule sort_key_map) simp
  have "sort_key fst (sort_key fst (map ?g kvs)) = sort_key fst (map ?g kvs)"
    by (rule sort_key_idem)
  with m have m2: "sort_key fst (sort_key fst (map ?g kvs)) = map ?g (sort_key fst kvs)"
    by (rule trans[rotated])
  have e: "map ?h (map ?g (sort_key fst kvs)) = map ?h (sort_key fst kvs)"
    unfolding map_map
  proof (rule map_cong[OF refl])
    fix kv assume "kv \<in> set (sort_key fst kvs)"
    then have "kv \<in> set kvs" by simp
    moreover have "snd kv \<in> Basic_BNFs.snds kv" by (cases kv) simp
    ultimately have "dumps (canon (snd kv)) = dumps (snd kv)"
      by (rule JDict.IH)
    then show "(?h \<circ> ?g) kv = ?h kv" by simp
  qed
  have "dumps (canon (JDict kvs)) =
      ''{'' @ join '', '' (map ?h (sort_key fst (sort_key fst (map ?g kvs)))) @ ''}''"
    by simp
  also have "\<dots> = ''{'' @ join '', '' (map ?h (map ?g (sort_key fst kvs))) @ ''}''"
    unfolding m2 ..
  also have "\<dots> = ''{'' @ join '', '' (map ?h (sort_key fst kvs)) @ ''}''"
    by (simp only: e)
  also have "\<dots> = dumps (JDict kvs)" by simp
  finally show ?case .
qed simp_all

lemma same_json_dumps: "same_json a b \<Longrightarrow> dumps a = dumps b"
  unfolding same_json_def by (metis dumps_canon)

lemma distinct_keys_sort: "distinct (map f (sort_key f xs)) = distinct (map f xs)"
  by (induction xs) (simp_all add: distinct_insort_key)

lemma alist_eqI:
  "map fst a = map fst b \<Longrightarrow> map_of a = map_of b \<Longrightarrow> distinct (map fst a) \<Longrightarrow> a = b"
proof (induction a arbitrary: b)
  case Nil
  then show ?case by simp
next
  case (Cons x a)
  from Cons.prems(1) obtain y b' where b: "b = y # b'" by (cases b) auto
  with Cons.prems(1) have k: "fst x = fst y" and ks: "map fst a = map fst b'" by simp_all
  from Cons.prems(2)[unfolded b] have "map_of (x # a) (fst x) = map_of (y # b') (fst x)"
    by (rule fun_cong)
  with k have xy: "x = y" by (cases x, cases y) simp
  from Cons.prems(3) have nx: "fst x \<notin> set (map fst a)" and da: "distinct (map fst a)"
    by simp_all
  have "map_of a k = map_of b' k" for k
  proof (cases "k = fst x")
    case True
    from nx have "map_of a (fst x) = None" by (simp add: map_of_eq_None_iff)
    moreover from nx ks have "map_of b' (fst x) = None" by (simp add: map_of_eq_None_iff)
    ultimately show ?thesis using True by simp
  next
    case False
    from Cons.prems(2)[unfolded b] have "map_of (x # a) k = map_of (y # b') k"
      by (rule fun_cong)
    with False xy show ?thesis by (cases x) (simp split: if_splits)
  qed
  then have "map_of a = map_of b'" by (rule ext)
  with ks have "a = b'" using da by (rule Cons.IH)
  with xy b show ?case by simp
qed

lemma same_items_sort:
  assumes "distinct (map fst xs)" "distinct (map fst ys)" "set xs = set ys"
  shows "sort_key fst xs = sort_key fst ys"
proof -
  let ?a = "sort_key fst xs" and ?b = "sort_key fst ys"
  have d: "distinct (map fst ?a)" "distinct (map fst ?b)"
    using assms by (simp_all add: distinct_keys_sort)
  have "set (map fst ?a) = set (map fst ?b)" using assms(3) by simp
  with d have k: "map fst ?a = map fst ?b"
    by (intro sorted_distinct_set_unique) (simp_all add: sorted_sort_key)
  have "set ?a = set ?b" using assms(3) by simp
  with d have "map_of ?a = map_of ?b" by (simp add: map_of_inject_set)
  with k d show ?thesis by (intro alist_eqI)
qed

lemma same_json_refl: "same_json v v"
  by (simp add: same_json_def)

lemma same_json_reorder:
  assumes "distinct (map fst p)" "distinct (map fst q)" "set p = set q"
  shows "same_json (JDict p) (JDict q)"
proof -
  let ?g = "\<lambda>kv. (fst kv, canon (snd kv))"
  have 1: "sort_key fst (map ?g p) = map ?g (sort_key fst p)" by (rule sort_key_map) simp
  have 2: "sort_key fst (map ?g q) = map ?g (sort_key fst q)" by (rule sort_key_map) simp
  from assms have "sort_key fst p = sort_key fst q" by (rule same_items_sort)
  with 1 2 show ?thesis by (simp add: same_json_def)
qed

lemma dict_or_same:
  assumes "same_params p q"
  shows "dumps (JDict (dict_or p [])) = dumps (JDict (dict_or q []))"
proof (cases p)
  case None
  with assms show ?thesis by (cases q) (simp_all add: same_params_def)
next
  case (Some a)
  with assms obtain b where q: "q = Some b" and s: "same_json (JDict a) (JDict b)"
    by (cases q) (simp_all add: same_params_def)
  from s have d: "dumps (JDict a) = dumps (JDict b)" by (rule same_json_dumps)
  have "dict_or (Some a) [] = a" "dict_or (Some b) [] = b"
    by (simp_all add: dict_or_def)
  with d Some q show ?thesis by simp
qed

lemma key_string_eq:
  "dumps (key_data r) =
     ''{'' @ encode_basestring_ascii ''body'' @ '': '' @ dumps (body r) @ '', '' @
     encode_basestring_ascii ''method'' @ '': '' @ dumps (JStr (http_method r)) @ '', '' @
     encode_basestring_ascii ''params'' @ '': '' @ dumps (JDict (dict_or (params r) [])) @ '', '' @
     encode_basestring_ascii ''url'' @ '': '' @ dumps (JStr (url r)) @ ''}''"
  unfolding key_data_def dumps.simps(7) key_order by simp

text \<open>
  Claim C7.  The cache key is a function of \<open>url\<close>, \<open>method\<close>, \<open>params\<close> and \<open>body\<close>
  only.  Two requests with the same URL and method, whose \<open>params\<close> are both absent or
  the same JSON document, and whose bodies are the same JSON document, get the same key,
  whatever their headers are; every value is the same document as itself, two
  dictionaries holding the same items under distinct keys are the same document in
  whatever order the items were inserted (so \<open>{a:1, b:2}\<close> and \<open>{b:2, a:1}\<close> give one
  key), and replacing the header mapping of a request never changes its key.
\<close>

theorem cache_key_determined_by_four_fields:
  "(url r1 = url r2 \<and> http_method r1 = http_method r2
      \<and> same_params (params r1) (params r2) \<and> same_json (body r1) (body r2)
      \<longrightarrow> generate_cache_key r1 = generate_cache_key r2)
   \<and> same_json v v
   \<and> (distinct (map fst p) \<and> distinct (map fst q) \<and> set p = set q
        \<longrightarrow> same_json (JDict p) (JDict q))
   \<and> generate_cache_key (r\<lparr>ProxyRequest.headers := h\<rparr>)
       = generate_cache_key r"
proof -
  have a: "generate_cache_key r1 = generate_cache_key r2"
    if "url r1 = url r2" "http_method r1 = http_method r2"
      "same_params (params r1) (params r2)" "same_json (body r1) (body r2)"
  proof -
    from that(3) have "dumps (JDict (dict_or (params r1) [])) = dumps (JDict (dict_or (params r2) []))"
      by (rule dict_or_same)
    moreover from that(4) have "dumps (body r1) = dumps (body r2)" by (rule same_json_dumps)
    ultimately have "dumps (key_data r1) = dumps (key_data r2)"
      using that(1,2) unfolding key_string_eq by simp
    then show ?thesis by (simp add: generate_cache_key_def Let_def)
  qed
  have b: "same_json (JDict p) (JDict q)"
    if "distinct (map fst p)" "distinct (map fst q)" "set p = set q"
    using that by (rule same_json_reorder)
  have c: "generate_cache_key (r\<lparr>ProxyRequest.headers := h\<rparr>)
       = generate_cache_key r"
    by (simp add: generate_cache_key_def key_data_def)
  from a b c same_json_refl show ?thesis by blast
qed

theorem cache_key_determined_by_four_fields_witness:
  "(let r1 = \<lparr>url = ''https://example.com/a'', http_method = ''GET'',
                headers = Some [(''accept'', ''text/html'')], body = JNull,
                params = Some [(''a'', JInt 1), (''b'', JInt 2)]\<rparr>;
          r2 = \<lparr>url = ''https://example.com/a'', http_method = ''GET'',
                headers = None, body = JNull,
                params = Some [(''b'', JInt 2), (''a'', JInt 1)]\<rparr>
      in url r1 = url r2 \<and> http_method r1 = http_method r2
       \<and> distinct (map fst [(''a'', JInt 1), (''b'', JInt 2)])
       \<and> distinct (map fst [(''b'', JInt 2), (''a'', JInt 1)])
       \<and> set [(''a'', JInt 1), (''b'', JInt 2)] = set [(''b'', JInt 2), (''a'', JInt 1)]
       \<and> same_params (params r1) (params r2) \<and> same_json (body r1) (body r2)
       \<and> generate_cache_key r1 = generate_cache_key r2)"
proof -
  define p where "p = [(''a'', JInt 1), (''b'', JInt 2)]"
  define q where "q = [(''b'', JInt 2), (''a'', JInt 1)]"
  define r1 where "r1 = \<lparr>url = ''https://example.com/a'', http_method = ''GET'',
                headers = Some [(''accept'', ''text/html'')], body = JNull, params = Some p\<rparr>"
  define r2 where "r2 = \<lparr>url = ''https://example.com/a'', http_method = ''GET'',
                headers = None, body = JNull, params = Some q\<rparr>"
  note t = cache_key_determined_by_four_fields[where ?r1.0 = r1 and ?r2.0 = r2
      and v = JNull and p = p and q = q and r = r1 and h = None]
  have d: "distinct (map fst p)" "distinct (map fst q)" "set p = set q"
    by (auto simp: p_def q_def)
  with t have sp: "same_json (JDict p) (JDict q)" by blast
  then have 1: "same_params (params r1) (params r2)"
    by (simp add: same_params_def r1_def r2_def)
  from t have 2: "same_json (body r1) (body r2)" by (simp add: r1_def r2_def)
  have 3: "url r1 = url r2" "http_method r1 = http_method r2" by (simp_all add: r1_def r2_def)
  from t 1 2 3 have "generate_cache_key r1 = generate_cache_key r2"
    by blast
  with d 1 2 3 show ?thesis
    unfolding Let_def r1_def[symmetric] r2_def[symmetric] p_def[symmetric] q_def[symmetric]
    by blast
qed

text \<open>
  Claim C10.  A request without \<open>params\<close> and the otherwise identical request whose
  \<open>params\<close> is the empty dictionary are hashed from the same data
  (\<^verbatim>\<open>request.params or {}\<close> turns both into \<open>{}\<close>), so they get the same key.
\<close>

theorem cache_key_params_absent_eq_empty:
  "generate_cache_key (r\<lparr>params := None\<rparr>)
     = generate_cache_key (r\<lparr>params := Some []\<rparr>)
   \<and> key_data (r\<lparr>params := None\<rparr>) = key_data (r\<lparr>params := Some []\<rparr>)"
  by (simp add: generate_cache_key_def key_data_def dict_or_def)

text \<open>
  The string that is hashed tells an absent body from an empty object: after the common
  prefix \<^verbatim>\<open>{"body": \<close> one continues with \<^verbatim>\<open>null\<close>, the other with \<^verbatim>\<open>{}\<close>.  Whether the
  two digests differ as well is a property of MD5 on these two strings, not of this code.
\<close>

lemma key_string_body_absent_vs_empty:
  "dumps (key_data (r\<lparr>body := JNull\<rparr>)) \<noteq> dumps (key_data (r\<lparr>body := JDict []\<rparr>))"
  unfolding key_string_eq by (simp add: encode_basestring_ascii_def)

section \<open>Properties of the cacheability rule\<close>

lemma str_in_iff: "str_in sub s \<longleftrightarrow> (\<exists>p q. s = p @ sub @ q)"
proof (induction s)
  case Nil
  then show ?case by auto
next
  case (Cons c cs)
  have "take (length sub) (c # cs) = sub \<longleftrightarrow> (\<exists>q. c # cs = sub @ q)"
    by (metis append_eq_conv_conj append_take_drop_id)
  moreover have "(\<exists>p q. c # cs = p @ sub @ q) \<longleftrightarrow>
      (\<exists>q. c # cs = sub @ q) \<or> (\<exists>p q. cs = p @ sub @ q)"
  proof
    assume "\<exists>p q. c # cs = p @ sub @ q"
    then obtain p q where e: "c # cs = p @ sub @ q" by blast
    show "(\<exists>q. c # cs = sub @ q) \<or> (\<exists>p q. cs = p @ sub @ q)"
    proof (cases p)
      case Nil
      with e show ?thesis by auto
    next
      case (Cons a p')
      with e have "cs = p' @ sub @ q" by simp
      then show ?thesis by blast
    qed
  next
    assume "(\<exists>q. c # cs = sub @ q) \<or> (\<exists>p q. cs = p @ sub @ q)"
    then show "\<exists>p q. c # cs = p @ sub @ q"
    proof
      assume "\<exists>q. c # cs = sub @ q"
      then obtain q where "c # cs = [] @ sub @ q" by auto
      then show ?thesis by blast
    next
      assume "\<exists>p q. cs = p @ sub @ q"
      then obtain p q where "c # cs = (c # p) @ sub @ q" by auto
      then show ?thesis by blast
    qed
  qed
  ultimately show ?case using Cons.IH by simp
qed

text \<open>
  Claim C3, as the code has it.  \<^verbatim>\<open>is_cacheable_response\<close> returns true exactly when the
  status is 200, 301 or 302 and the value stored under the key \<^verbatim>\<open>cache-control\<close>, spelt
  exactly so (the empty string when there is no such key), once lower-cased contains
  neither \<^verbatim>\<open>no-store\<close> nor \<^verbatim>\<open>no-cache\<close> as a substring.  A 404 is never cacheable, a 200
  without the key \<^verbatim>\<open>cache-control\<close> is cacheable, a 200 with \<^verbatim>\<open>cache-control: no-store\<close> is
  not.  The header name is not matched case-insensitively: a 200 whose only such header
  is spelt \<^verbatim>\<open>Cache-Control\<close> is cacheable even with the value \<^verbatim>\<open>no-store\<close>.
\<close>

theorem is_cacheable_response_exact_header_name:
  "is_cacheable_response status hdrs =
     (status \<in> {200, 301, 302}
      \<and> \<not> (\<exists>p q. str_lower (dict_get hdrs ''cache-control'' '''') = p @ ''no-store'' @ q)
      \<and> \<not> (\<exists>p q. str_lower (dict_get hdrs ''cache-control'' '''') = p @ ''no-cache'' @ q))
   \<and> \<not> is_cacheable_response 404 hdrs
   \<and> (map_of hdrs ''cache-control'' = None \<longrightarrow> is_cacheable_response 200 hdrs)
   \<and> (map_of hdrs ''cache-control'' = Some ''no-store'' \<longrightarrow> \<not> is_cacheable_response 200 hdrs)
   \<and> (map_of hdrs ''cache-control'' = None \<and> map_of hdrs ''Cache-Control'' = Some ''no-store''
        \<longrightarrow> is_cacheable_response 200 hdrs)"
proof -
  have a: "is_cacheable_response status hdrs =
     (status \<in> {200, 301, 302}
      \<and> \<not> (\<exists>p q. str_lower (dict_get hdrs ''cache-control'' '''') = p @ ''no-store'' @ q)
      \<and> \<not> (\<exists>p q. str_lower (dict_get hdrs ''cache-control'' '''') = p @ ''no-cache'' @ q))"
    unfolding is_cacheable_response_def Let_def str_in_iff by auto
  have b: "\<not> is_cacheable_response 404 hdrs"
    by (simp add: is_cacheable_response_def)
  have e: "\<not> str_in ''no-store'' []" "\<not> str_in ''no-cache'' []" by simp_all
  have c: "is_cacheable_response 200 hdrs" if "map_of hdrs ''cache-control'' = None"
    using that e by (simp add: is_cacheable_response_def dict_get_def str_lower_def)
  have l: "str_lower ''no-store'' = ''no-store''" by code_simp
  have d: "\<not> is_cacheable_response 200 hdrs" if "map_of hdrs ''cache-control'' = Some ''no-store''"
    using that by (simp add: is_cacheable_response_def dict_get_def l)
  from a b c d show ?thesis by blast
qed

theorem is_cacheable_response_exact_header_name_witness:
  "map_of [(''content-type'', ''text/html'')] ''cache-control'' = None
   \<and> is_cacheable_response 200 [(''content-type'', ''text/html'')]
   \<and> map_of [(''cache-control'', ''no-store'')] ''cache-control'' = Some ''no-store''
   \<and> \<not> is_cacheable_response 200 [(''cache-control'', ''no-store'')]
   \<and> map_of [(''Cache-Control'', ''no-store'')] ''cache-control'' = None
   \<and> map_of [(''Cache-Control'', ''no-store'')] ''Cache-Control'' = Some ''no-store''
   \<and> is_cacheable_response 200 [(''Cache-Control'', ''no-store'')]"
proof -
  have h1: "map_of [(''content-type'', ''text/html'')] ''cache-control'' = None" by simp
  have h2: "map_of [(''cache-control'', ''no-store'')] ''cache-control'' = Some ''no-store''"
    by simp
  have h3: "map_of [(''Cache-Control'', ''no-store'')] ''cache-control'' = None"
    "map_of [(''Cache-Control'', ''no-store'')] ''Cache-Control'' = Some ''no-store''"
    by simp_all
  from h1 is_cacheable_response_exact_header_name[of 200 "[(''content-type'', ''text/html'')]"]
  have c1: "is_cacheable_response 200 [(''content-type'', ''text/html'')]" by blast
  from h2 is_cacheable_response_exact_header_name[of 200 "[(''cache-control'', ''no-store'')]"]
  have c2: "\<not> is_cacheable_response 200 [(''cache-control'', ''no-store'')]" by blast
  from h3 is_cacheable_response_exact_header_name[of 200 "[(''Cache-Control'', ''no-store'')]"]
  have c3: "is_cacheable_response 200 [(''Cache-Control'', ''no-store'')]" by blast
  from h1 h2 h3 c1 c2 c3 show ?thesis by blast
qed

text \<open>
  The claim as first stated fails: with the header \<^verbatim>\<open>Cache-Control: no-store\<close> under its
  capitalised name, the function answers true where the rule with a case-insensitive
  header name answers false.
\<close>

theorem is_cacheable_response_capitalized_counterexample:
  "is_cacheable_response 200 [(''Cache-Control'', ''no-store'')]
   \<and> \<not> spec_isCacheable 200 [(''Cache-Control'', ''no-store'')]"
  by code_simp

section \<open>Properties of process_proxy_request\<close>

lemma init_memory: "init_state default_settings = Inr memory_state0"
  by (simp add: init_state_def CacheManager_init_def default_settings_def memory_state0_def)

lemma init_redis: "init_state (default_settings\<lparr>cache_backend := ''redis''\<rparr>) = Inr redis_state0"
  by (simp add: init_state_def CacheManager_init_def default_settings_def redis_state0_def)

lemma example_cacheable:
  "is_cacheable_response 200 [(''content-type'', ''text/plain'')]"
  by code_simp

lemma memory_miss:
  "process_proxy_request default_settings (example_env 0) example_request None memory_state0 =
     (Inr 0,
      \<lparr>stats = \<lparr>hits = 0, misses = 1, total_requests = 1\<rparr>,
       cache_manager = Memory \<lparr>cache = [(generate_cache_key example_request, (0, 300))],
                                max_size = 1000, default_ttl = 300\<rparr>,
       heap = [example_response False]\<rparr>)"
  by (simp add: process_proxy_request_def memory_state0_def example_env_def Let_def
      CacheManager_get_def MemoryCacheBackend_get_def MemoryCacheBackend_init_def
      make_http_request_def example_cacheable int_or_def default_settings_def
      CacheManager_set_def MemoryCacheBackend_set_def od_contains_def od_setitem_def
      example_response_def)

lemma memory_hit:
  "process_proxy_request default_settings (example_env 1) example_request None
     \<lparr>stats = \<lparr>hits = 0, misses = 1, total_requests = 1\<rparr>,
      cache_manager = Memory \<lparr>cache = [(generate_cache_key example_request, (0, 300))],
                               max_size = 1000, default_ttl = 300\<rparr>,
      heap = [example_response False]\<rparr> =
     (Inr 0,
      \<lparr>stats = \<lparr>hits = 1, misses = 1, total_requests = 2\<rparr>,
       cache_manager = Memory \<lparr>cache = [(generate_cache_key example_request, (0, 300))],
                                max_size = 1000, default_ttl = 300\<rparr>,
       heap = [example_response True]\<rparr>)"
  by (simp add: process_proxy_request_def example_env_def Let_def
      CacheManager_get_def MemoryCacheBackend_get_def od_move_to_end_def od_delitem_def
      example_response_def)

lemma redis_miss:
  "process_proxy_request default_settings (example_env 0) example_request None redis_state0 =
     (Inr 0,
      \<lparr>stats = \<lparr>hits = 0, misses = 1, total_requests = 1\<rparr>,
       cache_manager = Redis \<lparr>connected = True,
          keyspace = [(generate_cache_key example_request, (example_response False, 300))]\<rparr>,
       heap = [example_response False]\<rparr>)"
  by (simp add: process_proxy_request_def redis_state0_def example_env_def Let_def
      CacheManager_get_def RedisCacheBackend_get_def
      make_http_request_def example_cacheable int_or_def default_settings_def
      CacheManager_set_def RedisCacheBackend_set_def od_delitem_def
      example_response_def)

lemma redis_hit:
  "process_proxy_request default_settings (example_env 1) example_request None
     \<lparr>stats = \<lparr>hits = 0, misses = 1, total_requests = 1\<rparr>,
      cache_manager = Redis \<lparr>connected = True,
         keyspace = [(generate_cache_key example_request, (example_response False, 300))]\<rparr>,
      heap = [example_response False]\<rparr> =
     (Inr 1,
      \<lparr>stats = \<lparr>hits = 1, misses = 1, total_requests = 2\<rparr>,
       cache_manager = Redis \<lparr>connected = True,
          keyspace = [(generate_cache_key example_request, (example_response False, 300))]\<rparr>,
       heap = [example_response False, example_response True]\<rparr>)"
  by (simp add: process_proxy_request_def example_env_def Let_def
      CacheManager_get_def RedisCacheBackend_get_def example_response_def)

text \<open>
  Claim C2 at its failing input: an in-memory proxy serves the same cacheable request
  twice.  The miss stores the response object with \<^verbatim>\<open>from_cache\<close> false.  The hit returns
  that very object (address 0) and sets its flag, so the entry the store retains now has
  \<^verbatim>\<open>from_cache\<close> true, and \<^verbatim>\<open>get_cache_info\<close> reports it.  On the Redis backend the
  same two requests leave the stored value with \<^verbatim>\<open>from_cache\<close> false: the hit marks a
  fresh copy (address 1).
\<close>

theorem memory_hit_marks_stored_entry:
  "(let (r1, s1) = process_proxy_request default_settings (example_env 0) example_request None
                     memory_state0;
        (r2, s2) = process_proxy_request default_settings (example_env 1) example_request None s1
    in r1 = Inr 0 \<and> stored_flags s1 = [False]
     \<and> r2 = Inr 0 \<and> stored_flags s2 = [True]
     \<and> fst (get_cache_info (example_env 2) (generate_cache_key example_request) s2)
         = Inr (generate_cache_key example_request, True, 200, True))
   \<and> (let (r1, s1) = process_proxy_request default_settings (example_env 0) example_request None
                     redis_state0;
        (r2, s2) = process_proxy_request default_settings (example_env 1) example_request None s1
    in r1 = Inr 0 \<and> stored_flags s1 = [False]
     \<and> r2 = Inr 1 \<and> stored_flags s2 = [False]
     \<and> from_cache (heap s2 ! 1))"
  by (simp only: memory_miss memory_hit redis_miss redis_hit Let_def prod.case)
    (simp add: stored_flags_def example_response_def get_cache_info_def CacheManager_get_def
      MemoryCacheBackend_get_def example_env_def od_move_to_end_def od_delitem_def)

lemma memory_miss_ttl:
  "process_proxy_request default_settings (example_env 10) example_request ttl memory_state0 =
     (Inr 0,
      \<lparr>stats = \<lparr>hits = 0, misses = 1, total_requests = 1\<rparr>,
       cache_manager = Memory \<lparr>cache = [(generate_cache_key example_request,
                                          (0, 10 + real_of_int (int_or ttl 300)))],
                                max_size = 1000, default_ttl = 300\<rparr>,
       heap = [example_response False]\<rparr>)"
  by (simp add: process_proxy_request_def memory_state0_def example_env_def Let_def
      CacheManager_get_def MemoryCacheBackend_get_def MemoryCacheBackend_init_def
      make_http_request_def example_cacheable default_settings_def
      CacheManager_set_def MemoryCacheBackend_set_def od_contains_def od_setitem_def
      example_response_def)

text \<open>
  Claim C8 at its failing input: a cacheable miss at clock reading 10 with the override
  \<^verbatim>\<open>ttl=0\<close> stores the entry with expiry \<open>10 + 300\<close>, the configured default, as a call
  without override does; the override 5 gives expiry \<open>10 + 5\<close>.
\<close>

theorem ttl_zero_override_replaced_by_default:
  "(let (r, s) = process_proxy_request default_settings (example_env 10) example_request
                   (Some 0) memory_state0
    in r = Inr 0
     \<and> cache_manager s =
         Memory \<lparr>cache = [(generate_cache_key example_request, (0, 10 + 300))],
                 max_size = 1000, default_ttl = 300\<rparr>)
   \<and> (let (r, s) = process_proxy_request default_settings (example_env 10) example_request
                   (Some 5) memory_state0
    in r = Inr 0
     \<and> cache_manager s =
         Memory \<lparr>cache = [(generate_cache_key example_request, (0, 10 + 5))],
                 max_size = 1000, default_ttl = 300\<rparr>)
   \<and> (let (r, s) = process_proxy_request default_settings (example_env 10) example_request
                   None memory_state0
    in r = Inr 0
     \<and> cache_manager s =
         Memory \<lparr>cache = [(generate_cache_key example_request, (0, 10 + 300))],
                 max_size = 1000, default_ttl = 300\<rparr>)"
  by (simp only: memory_miss_ttl Let_def prod.case) (simp add: int_or_def)

text \<open>
  Claim C1, as the code has it.  Take a request whose cache read is a miss and whose
  origin fetch succeeds with status \<open>st\<close>, content \<open>c\<close> and headers \<open>h\<close>; \<open>resp\<close> is the
  fetched response with its key attached and \<^verbatim>\<open>from_cache\<close> false, \<open>w\<close> the result of the
  cache write the request makes.  If the response is cacheable and the write raises
  \<open>err\<close>, \<^verbatim>\<open>process_proxy_request\<close> raises \<open>err\<close>: the request fails.  If the write
  succeeds, or the response is not cacheable (then nothing is written), the fetched
  response is returned with \<^verbatim>\<open>from_cache\<close> false.  In every case the request is counted
  once, as a miss.
\<close>

theorem cache_write_failure_fails_request:
  assumes miss: "CacheManager_get (cache_manager s) (heap s) (generate_cache_key request) e
                   = (Inr None, b, hp)"
    and fetched: "origin e = Inr (st, c, h)"
  shows
    "(let key = generate_cache_key request;
          resp = \<lparr>status_code = st, content = c, headers = h, from_cache = False,
                  cache_key = Some key\<rparr>;
          w = CacheManager_set b (hp @ [resp]) key (length hp)
                (int_or ttl (cache_ttl settings)) e;
          out = process_proxy_request settings e request ttl s
      in (is_cacheable_response st h \<and> fst w = Inl err \<longrightarrow> fst out = Inl err)
       \<and> (is_cacheable_response st h \<and> fst w = Inr () \<longrightarrow>
            fst out = Inr (length hp) \<and> heap (snd out) ! length hp = resp)
       \<and> (\<not> is_cacheable_response st h \<longrightarrow>
            fst out = Inr (length hp) \<and> heap (snd out) ! length hp = resp
            \<and> cache_manager (snd out) = b)
       \<and> misses (stats (snd out)) = misses (stats s) + 1
       \<and> hits (stats (snd out)) = hits (stats s)
       \<and> total_requests (stats (snd out)) = total_requests (stats s) + 1)"
proof -
  define key where "key = generate_cache_key request"
  define resp where "resp = \<lparr>status_code = st, content = c, headers = h, from_cache = False,
                  cache_key = Some key\<rparr>"
  define w where "w = CacheManager_set b (hp @ [resp]) key (length hp)
                (int_or ttl (cache_ttl settings)) e"
  define out where "out = process_proxy_request settings e request ttl s"
  have hp3: "(hp @ [\<lparr>status_code = st, content = c, headers = h, from_cache = False,
                  cache_key = None\<rparr>])[length hp := resp] = hp @ [resp]"
    by simp
  have rs: "status_code resp = st" "ProxyResponse.headers resp = h"
    by (simp_all add: resp_def)
  have o: "out =
      (if is_cacheable_response st h then
         (case w of
            (Inl err, b') \<Rightarrow>
              (Inl err, s\<lparr>stats := (stats s)\<lparr>total_requests := total_requests (stats s) + 1,
                                            misses := misses (stats s) + 1\<rparr>,
                          cache_manager := b', heap := hp @ [resp]\<rparr>)
          | (Inr _, b') \<Rightarrow>
              (Inr (length hp),
               s\<lparr>stats := (stats s)\<lparr>total_requests := total_requests (stats s) + 1,
                                      misses := misses (stats s) + 1\<rparr>,
                  cache_manager := b', heap := hp @ [resp]\<rparr>))
       else (Inr (length hp),
             s\<lparr>stats := (stats s)\<lparr>total_requests := total_requests (stats s) + 1,
                                    misses := misses (stats s) + 1\<rparr>,
                cache_manager := b, heap := hp @ [resp]\<rparr>))"
    using miss fetched
    by (simp add: out_def process_proxy_request_def Let_def make_http_request_def
        key_def[symmetric] resp_def[symmetric] w_def[symmetric] hp3 rs
        split: prod.splits sum.splits)
  show ?thesis
    unfolding Let_def key_def[symmetric] resp_def[symmetric] w_def[symmetric] out_def[symmetric]
    by (cases w; cases "fst w") (auto simp: o)
qed

theorem cache_write_failure_fails_request_witness:
  "CacheManager_get (cache_manager redis_state0) (heap redis_state0)
       (generate_cache_key example_request) write_failing_env
     = (Inr None, Redis \<lparr>connected = True, keyspace = []\<rparr>, [])
   \<and> origin write_failing_env = Inr (200, ''hello'', [(''content-type'', ''text/plain'')])
   \<and> is_cacheable_response 200 [(''content-type'', ''text/plain'')]
   \<and> fst (CacheManager_set (Redis \<lparr>connected = True, keyspace = []\<rparr>)
            ([] @ [example_response False]) (generate_cache_key example_request) (length [])
            (int_or None (cache_ttl redis_settings)) write_failing_env) = Inl RedisError
   \<and> fst (process_proxy_request redis_settings write_failing_env example_request None
            redis_state0) = Inl RedisError
   \<and> CacheManager_get (cache_manager redis_state0) (heap redis_state0)
       (generate_cache_key example_request) (example_env 0)
     = (Inr None, Redis \<lparr>connected = True, keyspace = []\<rparr>, [])
   \<and> origin (example_env 0) = Inr (200, ''hello'', [(''content-type'', ''text/plain'')])
   \<and> fst (CacheManager_set (Redis \<lparr>connected = True, keyspace = []\<rparr>)
            ([] @ [example_response False]) (generate_cache_key example_request) (length [])
            (int_or None (cache_ttl redis_settings)) (example_env 0)) = Inr ()
   \<and> fst (process_proxy_request redis_settings (example_env 0) example_request None
            redis_state0) = Inr 0
   \<and> CacheManager_get (cache_manager redis_state0) (heap redis_state0)
       (generate_cache_key example_request) not_found_env
     = (Inr None, Redis \<lparr>connected = True, keyspace = []\<rparr>, [])
   \<and> origin not_found_env = Inr (404, ''gone'', [])
   \<and> \<not> is_cacheable_response 404 []
   \<and> fst (process_proxy_request redis_settings not_found_env example_request None
            redis_state0) = Inr 0"
proof -
  let ?b = "Redis \<lparr>connected = True, keyspace = []\<rparr>"
  let ?k = "generate_cache_key example_request"
  have g: "CacheManager_get (cache_manager redis_state0) (heap redis_state0) ?k env'
      = (Inr None, ?b, [])" if "redis_get_fails env' = False" for env'
    using that
    by (simp add: CacheManager_get_def redis_state0_def RedisCacheBackend_get_def)
  have g1: "CacheManager_get (cache_manager redis_state0) (heap redis_state0) ?k
      write_failing_env = (Inr None, ?b, [])"
    by (rule g) (simp add: write_failing_env_def example_env_def)
  have g2: "CacheManager_get (cache_manager redis_state0) (heap redis_state0) ?k
      (example_env 0) = (Inr None, ?b, [])"
    by (rule g) (simp add: example_env_def)
  have g3: "CacheManager_get (cache_manager redis_state0) (heap redis_state0) ?k
      not_found_env = (Inr None, ?b, [])"
    by (rule g) (simp add: not_found_env_def example_env_def)
  have o1: "origin write_failing_env = Inr (200, ''hello'', [(''content-type'', ''text/plain'')])"
    by (simp add: write_failing_env_def example_env_def)
  have o2: "origin (example_env 0) = Inr (200, ''hello'', [(''content-type'', ''text/plain'')])"
    by (simp add: example_env_def)
  have o3: "origin not_found_env = Inr (404, ''gone'', [])"
    by (simp add: not_found_env_def)
  have c: "is_cacheable_response 200 [(''content-type'', ''text/plain'')]"
    by (rule example_cacheable)
  have n: "\<not> is_cacheable_response 404 []" by (simp add: is_cacheable_response_def)
  have w1: "fst (CacheManager_set ?b ([] @ [example_response False]) ?k (length [])
            (int_or None (cache_ttl redis_settings)) write_failing_env) = Inl RedisError"
    by (simp add: CacheManager_set_def RedisCacheBackend_set_def write_failing_env_def
        example_env_def)
  have w2: "fst (CacheManager_set ?b ([] @ [example_response False]) ?k (length [])
            (int_or None (cache_ttl redis_settings)) (example_env 0)) = Inr ()"
    by (simp add: CacheManager_set_def RedisCacheBackend_set_def redis_settings_def
        default_settings_def int_or_def example_env_def)
  note t1 = cache_write_failure_fails_request[OF g1 o1, of None redis_settings RedisError,
      unfolded Let_def, folded example_response_def]
  note t2 = cache_write_failure_fails_request[OF g2 o2, of None redis_settings RedisError,
      unfolded Let_def, folded example_response_def]
  note t3 = cache_write_failure_fails_request[OF g3 o3, of None redis_settings RedisError,
      unfolded Let_def]
  from t1 c w1 have r1: "fst (process_proxy_request redis_settings write_failing_env
      example_request None redis_state0) = Inl RedisError" by blast
  from t2 c w2 have r2: "fst (process_proxy_request redis_settings (example_env 0)
      example_request None redis_state0) = Inr (length [])" by simp
  from t3 n have r3: "fst (process_proxy_request redis_settings not_found_env
      example_request None redis_state0) = Inr (length [])" by simp
  from r2 r3 have r2': "fst (process_proxy_request redis_settings (example_env 0)
      example_request None redis_state0) = Inr 0"
    and r3': "fst (process_proxy_request redis_settings not_found_env
      example_request None redis_state0) = Inr 0" by simp_all
  from g1 g2 g3 o1 o2 o3 c n w1 w2 r1 r2' r3' show ?thesis by blast
qed

text \<open>
  The claim as first stated fails: the origin answers 200, the Redis write fails, and the
  request ends in the store's error instead of returning the response.
\<close>

theorem cache_write_failure_counterexample:
  "origin write_failing_env = Inr (200, ''hello'', [(''content-type'', ''text/plain'')])
   \<and> fst (process_proxy_request redis_settings write_failing_env example_request None
            redis_state0) = Inl RedisError"
  by (simp add: process_proxy_request_def redis_state0_def write_failing_env_def example_env_def
      Let_def CacheManager_get_def RedisCacheBackend_get_def make_http_request_def
      example_cacheable CacheManager_set_def RedisCacheBackend_set_def)

section \<open>Properties of the statistics\<close>

lemma pow2_powr: "pow2 e = 2 powr (of_int e)"
proof (cases "e \<ge> 0")
  case True
  then have "(2::real) powr (of_int e) = 2 powr (real (nat e))" by simp
  also have "\<dots> = 2 ^ nat e" by (simp add: powr_realpow)
  finally show ?thesis using True by (simp add: pow2_def)
next
  case False
  then have "(2::real) powr (of_int e) = 2 powr (- real (nat (- e)))" by simp
  also have "\<dots> = 1 / 2 ^ nat (- e)" by (simp add: powr_minus powr_realpow divide_inverse)
  finally show ?thesis using False by (simp add: pow2_def)
qed

lemma pow2_pos: "0 < pow2 e"
  by (simp add: pow2_powr)

lemma pow2_add: "pow2 (a + b) = pow2 a * pow2 b"
  by (simp add: pow2_powr powr_add)

lemma pow2_mono: "a \<le> b \<Longrightarrow> pow2 a \<le> pow2 b"
  by (simp add: pow2_powr)

lemma pow2_nat: "pow2 (int n) = 2 ^ n"
  by (simp add: pow2_def)

lemma pow2_neg_nat: "pow2 (- int n) = 1 / 2 ^ n"
  by (simp add: pow2_powr powr_minus powr_realpow divide_inverse)

lemma round_half_even_near: "\<bar>of_int (round_half_even y) - y\<bar> \<le> 1 / 2"
proof -
  define f where "f = \<lfloor>y\<rfloor>"
  define d where "d = y - of_int f"
  have d0: "0 \<le> d" and d1: "d < 1" unfolding d_def f_def by linarith+
  have p: "round_half_even y =
      (if d < 1 / 2 then f else if d > 1 / 2 then f + 1 else if even f then f else f + 1)"
    unfolding round_half_even_def Let_def d_def f_def ..
  have y: "y = of_int f + d" by (simp add: d_def)
  show ?thesis
  proof (cases "d < 1 / 2 \<or> (d = 1 / 2 \<and> even f)")
    case True
    then have "round_half_even y = f" unfolding p by auto
    moreover from True have "d \<le> 1 / 2" by auto
    ultimately show ?thesis using d0 y by simp
  next
    case False
    then have "round_half_even y = f + 1" unfolding p by auto
    moreover from False have "d \<ge> 1 / 2" by auto
    ultimately show ?thesis using d1 y by simp
  qed
qed

lemma round_half_even_int: "round_half_even (of_int n) = n"
  by (simp add: round_half_even_def)

lemma float_exponent_bounds:
  assumes "0 < x"
  shows "pow2 (float_exponent x) \<le> x \<and> x < pow2 (float_exponent x + 1)"
proof (cases "x \<ge> 1")
  case True
  define n where "n = \<lfloor>x\<rfloor>"
  from True have n: "n > 0" unfolding n_def by linarith
  from bitlen_bounds[OF n] have lo: "2 ^ nat (bitlen n - 1) \<le> n" and hi: "n < 2 ^ nat (bitlen n)"
    by simp_all
  from n have b1: "bitlen n \<ge> 1" by (auto simp: bitlen_alt_def)
  have fe: "float_exponent x = bitlen n - 1" using True by (simp add: float_exponent_def n_def)
  have "pow2 (bitlen n - 1) = 2 ^ nat (bitlen n - 1)" using b1 by (simp add: pow2_def)
  also have "\<dots> \<le> real_of_int n" using lo by (metis of_int_le_iff of_int_numeral of_int_power)
  also have "\<dots> \<le> x" unfolding n_def by linarith
  finally have 1: "pow2 (float_exponent x) \<le> x" by (simp add: fe)
  from hi have "n + 1 \<le> 2 ^ nat (bitlen n)" by simp
  then have "real_of_int (n + 1) \<le> 2 ^ nat (bitlen n)"
    by (metis of_int_le_iff of_int_numeral of_int_power)
  moreover have "x < real_of_int (n + 1)" unfolding n_def by linarith
  moreover have "pow2 (bitlen n - 1 + 1) = 2 ^ nat (bitlen n)" using b1 by (simp add: pow2_def)
  ultimately have 2: "x < pow2 (float_exponent x + 1)" by (simp add: fe)
  from 1 2 show ?thesis ..
next
  case False
  define n where "n = \<lceil>1 / x\<rceil>"
  from False assms have x1: "1 / x > 1" by simp
  then have n2: "n - 1 > 0" unfolding n_def by linarith
  define j where "j = bitlen (n - 1)"
  from bitlen_bounds[OF n2] have lo: "2 ^ nat (j - 1) \<le> n - 1" and hi: "n - 1 < 2 ^ nat j"
    by (simp_all add: j_def)
  from n2 have j1: "j \<ge> 1" by (auto simp: bitlen_alt_def j_def)
  have fe: "float_exponent x = - j" using False by (simp add: float_exponent_def n_def j_def)
  from hi have "n \<le> 2 ^ nat j" by simp
  then have "real_of_int n \<le> 2 ^ nat j" by (metis of_int_le_iff of_int_numeral of_int_power)
  moreover have "1 / x \<le> real_of_int n" unfolding n_def by linarith
  ultimately have "1 / x \<le> 2 ^ nat j" by linarith
  with assms have "1 / 2 ^ nat j \<le> x" by (simp add: field_simps)
  moreover have "pow2 (- j) = 1 / 2 ^ nat j" using j1 by (simp add: pow2_def)
  ultimately have 1: "pow2 (float_exponent x) \<le> x" by (simp add: fe)
  have "real_of_int (n - 1) < 1 / x" unfolding n_def by linarith
  moreover from lo have "(2::real) ^ nat (j - 1) \<le> real_of_int (n - 1)"
    by (metis of_int_le_iff of_int_numeral of_int_power)
  ultimately have "2 ^ nat (j - 1) < 1 / x" by linarith
  with assms have "x < 1 / 2 ^ nat (j - 1)" by (simp add: field_simps)
  moreover have "pow2 (- j + 1) = 1 / 2 ^ nat (j - 1)" using j1 by (simp add: pow2_def)
  ultimately have 2: "x < pow2 (float_exponent x + 1)" by (simp add: fe)
  from 1 2 show ?thesis ..
qed

lemma float_exponent_unique:
  assumes "pow2 k \<le> x" and "x < pow2 (k + 1)"
  shows "float_exponent x = k"
proof -
  from assms(1) pow2_pos[of k] have x: "0 < x" by linarith
  from float_exponent_bounds[OF x]
  have lo: "pow2 (float_exponent x) \<le> x" and hi: "x < pow2 (float_exponent x + 1)" by simp_all
  have "\<not> float_exponent x < k"
  proof
    assume "float_exponent x < k"
    then have "pow2 (float_exponent x + 1) \<le> pow2 k" by (intro pow2_mono) simp
    with hi assms(1) show False by linarith
  qed
  moreover have "\<not> k < float_exponent x"
  proof
    assume "k < float_exponent x"
    then have "pow2 (k + 1) \<le> pow2 (float_exponent x)" by (intro pow2_mono) simp
    with lo assms(2) show False by linarith
  qed
  ultimately show ?thesis by linarith
qed


lemma fl_zero: "fl 0 = 0"
  by (simp add: fl_def)

lemma fl_unfold:
  assumes "x \<noteq> 0"
  defines "e \<equiv> max (float_exponent \<bar>x\<bar> - 52) (- 1074)"
  shows "fl x = sgn x * of_int (round_half_even (\<bar>x\<bar> / pow2 e)) * pow2 e"
  using assms(1) unfolding fl_def Let_def e_def by simp

lemma fl_error:
  "\<bar>fl x - x\<bar> \<le> \<bar>x\<bar> / 2 ^ 53 + pow2 (- 1075)"
proof (cases "x = 0")
  case True
  then show ?thesis using pow2_pos[of "- 1075"] by (simp add: fl_zero)
next
  case False
  define a where "a = \<bar>x\<bar>"
  define E where "E = float_exponent a"
  define e where "e = max (E - 52) (- 1074)"
  define y where "y = a / pow2 e"
  define m where "m = round_half_even y"
  from False have a: "0 < a" by (simp add: a_def)
  have f: "fl x = sgn x * of_int m * pow2 e"
    using fl_unfold[OF False] by (simp add: m_def y_def e_def E_def a_def)
  have xa: "x = sgn x * a" by (simp add: a_def sgn_mult_abs)
  have ay: "a = y * pow2 e" using pow2_pos[of e] by (simp add: y_def)
  have "fl x - x = sgn x * ((of_int m - y) * pow2 e)"
    by (subst f, subst (2) xa, subst ay) (simp add: algebra_simps)
  then have "\<bar>fl x - x\<bar> = \<bar>sgn x\<bar> * (\<bar>of_int m - y\<bar> * pow2 e)"
    using pow2_pos[of e] by (simp add: abs_mult)
  also have "\<bar>sgn x\<bar> = 1" using False by (simp add: abs_sgn_eq)
  finally have eq: "\<bar>fl x - x\<bar> = \<bar>of_int m - y\<bar> * pow2 e" by simp
  have "\<bar>of_int m - y\<bar> \<le> 1 / 2" unfolding m_def by (rule round_half_even_near)
  then have "\<bar>of_int m - y\<bar> * pow2 e \<le> 1 / 2 * pow2 e"
    using pow2_pos[of e] by (intro mult_right_mono) simp_all
  with eq have b: "\<bar>fl x - x\<bar> \<le> pow2 e / 2" by simp
  have nn: "0 \<le> a / 2 ^ 53" "0 \<le> pow2 (- 1075)"
    using a pow2_pos[of "- 1075"] by simp_all
  show ?thesis
  proof (cases "E - 52 \<ge> - 1074")
    case True
    then have "e = E - 52" by (simp add: e_def)
    then have "pow2 e * pow2 52 = pow2 E" by (simp add: pow2_add[symmetric])
    moreover have "pow2 E \<le> a" using float_exponent_bounds[OF a] by (simp add: E_def)
    moreover have "pow2 52 = 2 ^ 52" using pow2_nat[of 52] by simp
    ultimately have "pow2 e * 2 ^ 52 \<le> a" by simp
    then have "pow2 e / 2 \<le> a / 2 ^ 53" by simp
    with b nn show ?thesis unfolding a_def by linarith
  next
    case False
    then have "e = - 1074" by (simp add: e_def)
    then have "pow2 e = pow2 (- 1075 + 1)" by simp
    also have "\<dots> = pow2 (- 1075) * pow2 1" by (rule pow2_add)
    also have "pow2 1 = 2" using pow2_nat[of 1] by simp
    finally have "pow2 e / 2 = pow2 (- 1075)" by simp
    with b nn show ?thesis unfolding a_def by linarith
  qed
qed

lemma fl_eval:
  assumes "pow2 k \<le> x" and "x < pow2 (k + 1)" and "- 1022 \<le> k"
  shows "fl x = of_int (round_half_even (x / pow2 (k - 52))) * pow2 (k - 52)"
proof -
  from assms(1) pow2_pos[of k] have x: "0 < x" by linarith
  from assms(1,2) have "float_exponent x = k" by (rule float_exponent_unique)
  moreover from assms(3) have "max (k - 52) (- 1074) = k - 52" by simp
  ultimately show ?thesis
    using x fl_unfold[of x] by simp
qed



lemma pow2_tiny: "pow2 (- 1075) \<le> 1 / 2 ^ 53"
proof -
  have "pow2 (- 1075) \<le> pow2 (- 53)" by (rule pow2_mono) simp
  also have "pow2 (- 53) = 1 / 2 ^ 53" using pow2_neg_nat[of 53] by simp
  finally show ?thesis .
qed

lemma py_round2_near_arg:
  "\<bar>of_int (round_half_even (x * 100)) / 100 - x\<bar> \<le> 1 / 200"
proof -
  have "\<bar>of_int (round_half_even (x * 100)) - x * 100\<bar> \<le> 1 / 2"
    by (rule round_half_even_near)
  then have "- (1 / 2) \<le> of_int (round_half_even (x * 100)) - x * 100"
    "of_int (round_half_even (x * 100)) - x * 100 \<le> 1 / 2" by linarith+
  then show ?thesis by linarith
qed

lemma hit_rate_get_stats:
  "hit_rate (get_stats settings cs) =
     py_round2 (if total_requests cs > 0
                then fl (fl (of_int (hits cs) / of_int (total_requests cs)) * 100) else 0)"
  by (simp add: get_stats_def Let_def)

lemma py_round2_zero: "py_round2 0 = 0"
  by (simp add: py_round2_def round_half_even_def fl_zero)

lemma rate_error:
  assumes "0 \<le> q" and "q \<le> 1"
  shows "\<bar>py_round2 (fl (fl q * 100)) - q * 100\<bar> \<le> 1 / 200 + 1 / 10 ^ 13"
proof -
  define eps :: real where "eps = 1 / 2 ^ 53"
  define r1 where "r1 = fl q"
  define r2 where "r2 = fl (r1 * 100)"
  define d :: real where "d = of_int (round_half_even (r2 * 100)) / 100"
  define r3 where "r3 = fl d"
  have eps: "0 < eps" "406 * eps \<le> 1 / 10 ^ 13" by (simp_all add: eps_def)
  have tiny: "0 < pow2 (- 1075)" "pow2 (- 1075) \<le> eps"
    using pow2_pos[of "- 1075"] pow2_tiny by (simp_all add: eps_def)
  have e1: "\<bar>r1 - q\<bar> \<le> \<bar>q\<bar> * eps + pow2 (- 1075)"
    using fl_error[of q] by (simp add: r1_def eps_def)
  have e2: "\<bar>r2 - r1 * 100\<bar> \<le> \<bar>r1 * 100\<bar> * eps + pow2 (- 1075)"
    using fl_error[of "r1 * 100"] by (simp add: r2_def eps_def)
  have e3: "\<bar>d - r2\<bar> \<le> 1 / 200" unfolding d_def by (rule py_round2_near_arg)
  have e4: "\<bar>r3 - d\<bar> \<le> \<bar>d\<bar> * eps + pow2 (- 1075)"
    using fl_error[of d] by (simp add: r3_def eps_def)
  have q1: "\<bar>q\<bar> * eps \<le> eps" using assms eps(1) by (simp add: mult_left_le_one_le)
  with e1 tiny have b1: "\<bar>r1 - q\<bar> \<le> 2 * eps" by linarith
  have es: "eps \<le> 1 / 1000" by (simp add: eps_def)
  from b1 assms es have a1: "\<bar>r1 * 100\<bar> \<le> 101" by linarith
  then have "\<bar>r1 * 100\<bar> * eps \<le> 101 * eps" using eps(1) by (intro mult_right_mono) simp_all
  with e2 tiny have b2: "\<bar>r2 - r1 * 100\<bar> \<le> 102 * eps" by linarith
  from b2 a1 es have a2: "\<bar>r2\<bar> \<le> 102" by linarith
  with e3 have a3: "\<bar>d\<bar> \<le> 103" by linarith
  then have "\<bar>d\<bar> * eps \<le> 103 * eps" using eps(1) by (intro mult_right_mono) simp_all
  with e4 tiny have b4: "\<bar>r3 - d\<bar> \<le> 104 * eps" by linarith
  from b1 b2 e3 b4 have "\<bar>r3 - q * 100\<bar> \<le> 1 / 200 + 406 * eps" by linarith
  with eps(2) have "\<bar>r3 - q * 100\<bar> \<le> 1 / 200 + 1 / 10 ^ 13" by linarith
  then show ?thesis by (simp add: r3_def d_def r2_def r1_def py_round2_def)
qed


lemma process_counts:
  "stats (snd (process_proxy_request settings e r ttl s)) =
     (stats s)\<lparr>total_requests := total_requests (stats s) + 1,
               hits := hits (stats s) + (if classify e r s = Hit then 1 else 0),
               misses := misses (stats s) + (if classify e r s = Miss then 1 else 0)\<rparr>"
  by (simp add: process_proxy_request_def classify_def Let_def
      split: prod.splits sum.splits option.splits)

lemma process_keeps_memory:
  assumes "cache_manager s = Memory m"
  shows "classify e r s \<noteq> ReadFailed
    \<and> (\<exists>m'. cache_manager (snd (process_proxy_request settings e r ttl s)) = Memory m')"
  using assms
  by (simp add: process_proxy_request_def classify_def Let_def CacheManager_get_def
      CacheManager_set_def split: prod.splits sum.splits option.splits)

lemma outcome_counts:
  "count_list os Hit + count_list os Miss + count_list os ReadFailed = length os"
proof (induction os)
  case Nil
  then show ?case by simp
next
  case (Cons a os)
  then show ?case by (cases a) simp_all
qed

lemma run_counts:
  "run_requests settings s calls = (s', os) \<Longrightarrow>
     hits (stats s') = hits (stats s) + int (count_list os Hit)
   \<and> misses (stats s') = misses (stats s) + int (count_list os Miss)
   \<and> total_requests (stats s') = total_requests (stats s) + int (length os)
   \<and> length os = length calls"
proof (induction calls arbitrary: s s' os)
  case Nil
  then show ?case by simp
next
  case (Cons c calls)
  obtain e r ttl where c: "c = (e, r, ttl)" by (cases c) auto
  define s1 where "s1 = snd (process_proxy_request settings e r ttl s)"
  obtain s2 os2 where r2: "run_requests settings s1 calls = (s2, os2)"
    by (cases "run_requests settings s1 calls") auto
  from Cons.prems c r2 have s': "s' = s2" and os: "os = classify e r s # os2"
    by (simp_all add: s1_def)
  note ih = Cons.IH[OF r2]
  have st: "stats s1 =
     (stats s)\<lparr>total_requests := total_requests (stats s) + 1,
               hits := hits (stats s) + (if classify e r s = Hit then 1 else 0),
               misses := misses (stats s) + (if classify e r s = Miss then 1 else 0)\<rparr>"
    unfolding s1_def by (rule process_counts)
  show ?case using ih unfolding s' os st by (cases "classify e r s") simp_all
qed

lemma run_memory_no_read_failure:
  "cache_manager s = Memory m \<Longrightarrow> run_requests settings s calls = (s', os) \<Longrightarrow>
   count_list os ReadFailed = 0"
proof (induction calls arbitrary: s s' os m)
  case Nil
  then show ?case by simp
next
  case (Cons c calls)
  obtain e r ttl where c: "c = (e, r, ttl)" by (cases c) auto
  define s1 where "s1 = snd (process_proxy_request settings e r ttl s)"
  obtain s2 os2 where r2: "run_requests settings s1 calls = (s2, os2)"
    by (cases "run_requests settings s1 calls") auto
  from Cons.prems(2) c r2 have os: "os = classify e r s # os2" by (simp add: s1_def)
  from process_keeps_memory[OF Cons.prems(1), of e r settings ttl]
  obtain m' where nf: "classify e r s \<noteq> ReadFailed" and m': "cache_manager s1 = Memory m'"
    unfolding s1_def by blast
  from Cons.IH[OF m' r2] nf show ?case by (simp add: os)
qed


lemma fl_eval_num:
  assumes "pow2 k \<le> x" and "x < pow2 (k + 1)" and "- 1022 \<le> k"
    and "round_half_even (x / pow2 (k - 52)) = m"
  shows "fl x = of_int m * pow2 (k - 52)"
  using fl_eval[OF assms(1-3)] assms(4) by simp

lemma hit_rate_23_160:
  "hit_rate (get_stats settings \<lparr>hits = 23, misses = 137, total_requests = 160\<rparr>)
     = fl (1437 / 100)"
proof -
  have 1: "fl (23 / 160) = 5179139571476070 * pow2 (- 55)"
    using fl_eval_num[of "- 3" "23 / 160" 5179139571476070]
    by (simp add: pow2_def round_half_even_def Let_def)
  have 2: "fl (5179139571476070 * pow2 (- 55) * 100) = 8092405580431359 * pow2 (- 49)"
    using fl_eval_num[of 3 "5179139571476070 * pow2 (- 55) * 100" 8092405580431359]
    by (simp add: pow2_def round_half_even_def Let_def)
  have 3: "round_half_even (8092405580431359 * pow2 (- 49) * 100) = 1437"
    by (simp add: pow2_def round_half_even_def Let_def)
  have "hit_rate (get_stats settings \<lparr>hits = 23, misses = 137, total_requests = 160\<rparr>)
      = py_round2 (fl (fl (23 / 160) * 100))"
    by (simp add: hit_rate_get_stats)
  also have "\<dots> = py_round2 (8092405580431359 * pow2 (- 49))" unfolding 1 2 ..
  also have "\<dots> = fl (1437 / 100)" unfolding py_round2_def 3 by simp
  finally show ?thesis .
qed

lemma hit_rate_49_160:
  "hit_rate (get_stats settings \<lparr>hits = 49, misses = 111, total_requests = 160\<rparr>)
     = fl (3063 / 100)"
proof -
  have 1: "fl (49 / 160) = 5516909543528858 * pow2 (- 54)"
    using fl_eval_num[of "- 2" "49 / 160" 5516909543528858]
    by (simp add: pow2_def round_half_even_def Let_def)
  have 2: "fl (5516909543528858 * pow2 (- 54) * 100) = 8620171161763841 * pow2 (- 48)"
    using fl_eval_num[of 4 "5516909543528858 * pow2 (- 54) * 100" 8620171161763841]
    by (simp add: pow2_def round_half_even_def Let_def)
  have 3: "round_half_even (8620171161763841 * pow2 (- 48) * 100) = 3063"
    by (simp add: pow2_def round_half_even_def Let_def)
  have "hit_rate (get_stats settings \<lparr>hits = 49, misses = 111, total_requests = 160\<rparr>)
      = py_round2 (fl (fl (49 / 160) * 100))"
    by (simp add: hit_rate_get_stats)
  also have "\<dots> = py_round2 (8620171161763841 * pow2 (- 48))" unfolding 1 2 ..
  also have "\<dots> = fl (3063 / 100)" unfolding py_round2_def 3 by simp
  finally show ?thesis .
qed

lemma hit_rate_1_2:
  "hit_rate (get_stats settings \<lparr>hits = 1, misses = 1, total_requests = 2\<rparr>) = 50"
proof -
  have 1: "fl (1 / 2) = 1 / 2"
    using fl_eval_num[of "- 1" "1 / 2" 4503599627370496]
    by (simp add: pow2_def round_half_even_def Let_def)
  have 2: "fl (1 / 2 * 100) = 50"
    using fl_eval_num[of 5 50 7036874417766400]
    by (simp add: pow2_def round_half_even_def Let_def)
  have 4: "fl (5000 / 100) = 50"
    using fl_eval_num[of 5 50 7036874417766400]
    by (simp add: pow2_def round_half_even_def Let_def)
  have 3: "round_half_even (50 * 100) = 5000"
    by (simp add: round_half_even_def Let_def)
  have "hit_rate (get_stats settings \<lparr>hits = 1, misses = 1, total_requests = 2\<rparr>)
      = py_round2 (fl (fl (1 / 2) * 100))"
    by (simp add: hit_rate_get_stats)
  also have "\<dots> = py_round2 (50)" unfolding 1 2 ..
  also have "\<dots> = 50" unfolding py_round2_def 3 using 4 by simp
  finally show ?thesis .
qed


lemma run_example:
  "run_requests default_settings memory_state0 example_calls =
     (\<lparr>stats = \<lparr>hits = 1, misses = 1, total_requests = 2\<rparr>,
       cache_manager = Memory \<lparr>cache = [(generate_cache_key example_request, (0, 300))],
                                max_size = 1000, default_ttl = 300\<rparr>,
       heap = [example_response True]\<rparr>,
      [Miss, Hit])"
proof -
  have c1: "classify (example_env 0) example_request memory_state0 = Miss"
    by (simp add: classify_def memory_state0_def CacheManager_get_def MemoryCacheBackend_get_def
        MemoryCacheBackend_init_def)
  have c2: "classify (example_env 1) example_request
     \<lparr>stats = \<lparr>hits = 0, misses = 1, total_requests = 1\<rparr>,
      cache_manager = Memory \<lparr>cache = [(generate_cache_key example_request, (0, 300))],
                               max_size = 1000, default_ttl = 300\<rparr>,
      heap = [example_response False]\<rparr> = Hit"
    by (simp add: classify_def CacheManager_get_def MemoryCacheBackend_get_def example_env_def)
  show ?thesis
    by (simp only: example_calls_def run_requests.simps memory_miss memory_hit snd_conv
        prod.case c1 c2)
qed

lemma fl_near_decimal:
  "\<bar>fl (1437 / 100) - 1437 / 100\<bar> \<le> 1 / 10 ^ 13"
  "\<bar>fl (3063 / 100) - 3063 / 100\<bar> \<le> 1 / 10 ^ 13"
proof -
  have t: "pow2 (- 1075) \<le> 1 / 2 ^ 53" by (rule pow2_tiny)
  from fl_error[of "1437 / 100"] t show "\<bar>fl (1437 / 100) - 1437 / 100\<bar> \<le> 1 / 10 ^ 13"
    by simp
  from fl_error[of "3063 / 100"] t show "\<bar>fl (3063 / 100) - 3063 / 100\<bar> \<le> 1 / 10 ^ 13"
    by simp
qed

lemma hit_rate_1_32:
  "hit_rate (get_stats settings \<lparr>hits = 1, misses = 31, total_requests = 32\<rparr>)
     = fl (312 / 100)"
proof -
  have 1: "fl (1 / 32) = 1 / 32"
    using fl_eval_num[of "- 5" "1 / 32" 4503599627370496]
    by (simp add: pow2_def round_half_even_def Let_def)
  have 2: "fl (1 / 32 * 100) = 25 / 8"
    using fl_eval_num[of 1 "25 / 8" 7036874417766400]
    by (simp add: pow2_def round_half_even_def Let_def)
  have 3: "round_half_even (25 / 8 * 100) = 312"
    by (simp add: round_half_even_def Let_def)
  have "hit_rate (get_stats settings \<lparr>hits = 1, misses = 31, total_requests = 32\<rparr>)
      = py_round2 (fl (fl (1 / 32) * 100))"
    by (simp add: hit_rate_get_stats)
  also have "\<dots> = py_round2 (25 / 8)" unfolding 1 2 ..
  also have "\<dots> = fl (312 / 100)" unfolding py_round2_def 3 by simp
  finally show ?thesis .
qed

lemma hit_rate_3_32:
  "hit_rate (get_stats settings \<lparr>hits = 3, misses = 29, total_requests = 32\<rparr>)
     = fl (938 / 100)"
proof -
  have 1: "fl (3 / 32) = 3 / 32"
    using fl_eval_num[of "- 4" "3 / 32" 6755399441055744]
    by (simp add: pow2_def round_half_even_def Let_def)
  have 2: "fl (3 / 32 * 100) = 75 / 8"
    using fl_eval_num[of 3 "75 / 8" 5277655813324800]
    by (simp add: pow2_def round_half_even_def Let_def)
  have 3: "round_half_even (75 / 8 * 100) = 938"
    by (simp add: round_half_even_def Let_def)
  have "hit_rate (get_stats settings \<lparr>hits = 3, misses = 29, total_requests = 32\<rparr>)
      = py_round2 (fl (fl (3 / 32) * 100))"
    by (simp add: hit_rate_get_stats)
  also have "\<dots> = py_round2 (75 / 8)" unfolding 1 2 ..
  also have "\<dots> = fl (938 / 100)" unfolding py_round2_def 3 by simp
  finally show ?thesis .
qed

lemma fl_near_decimal2:
  "\<bar>fl (312 / 100) - 312 / 100\<bar> \<le> 1 / 10 ^ 13"
  "\<bar>fl (938 / 100) - 938 / 100\<bar> \<le> 1 / 10 ^ 13"
proof -
  have t: "pow2 (- 1075) \<le> 1 / 2 ^ 53" by (rule pow2_tiny)
  from fl_error[of "312 / 100"] t show "\<bar>fl (312 / 100) - 312 / 100\<bar> \<le> 1 / 10 ^ 13"
    by simp
  from fl_error[of "938 / 100"] t show "\<bar>fl (938 / 100) - 938 / 100\<bar> \<le> 1 / 10 ^ 13"
    by simp
qed

text \<open>
  Claim C4, as the code has it.  The \<^verbatim>\<open>hit_rate\<close> that \<^verbatim>\<open>get_stats\<close> reports is 0 when
  \<^verbatim>\<open>total_requests\<close> is not positive.  Otherwise it is the double computed as
  \<^verbatim>\<open>round(hits / total_requests * 100, 2)\<close>: a percentage rounded to two decimals in
  floating point, within \<open>1/200 + 10^-13\<close> of the exact percentage when
  \<open>0 \<le> hits \<le> total_requests\<close>.  Starting from counters at zero, after any sequence of
  requests the counters are the number \<open>M\<close> of hits, the number \<open>N\<close> of misses, and
  \<open>M + N + F\<close> where \<open>F\<close> counts the requests whose cache read raised (they are counted
  in the total only); \<open>F\<close> is zero on the in-memory backend.  So the reported rate is
  within \<open>1/200 + 10^-13\<close> of \<open>M / (M + N + F) * 100\<close>.  Where the exact percentage lies
  halfway between two hundredths the float computation decides: 23 hits in 160 requests
  (14.375) report the double nearest 14.37, 49 in 160 (30.625) the double nearest 30.63;
  1 in 32 (3.125, exact in floating point) reports the double nearest 3.12 and 3 in 32
  (9.375) the double nearest 9.38, the tie going to the even digit.
\<close>

theorem hit_rate_is_float_rounded_percentage:
  "(total_requests cs \<le> 0 \<longrightarrow> hit_rate (get_stats settings cs) = 0)
   \<and> (0 < total_requests cs \<longrightarrow>
        hit_rate (get_stats settings cs) =
          fl (of_int (round_half_even
                (fl (fl (of_int (hits cs) / of_int (total_requests cs)) * 100) * 100)) / 100))
   \<and> (0 \<le> hits cs \<and> hits cs \<le> total_requests cs \<and> 0 < total_requests cs \<longrightarrow>
        \<bar>hit_rate (get_stats settings cs)
           - of_int (hits cs) / of_int (total_requests cs) * 100\<bar> \<le> 1 / 200 + 1 / 10 ^ 13)
   \<and> (stats s0 = \<lparr>hits = 0, misses = 0, total_requests = 0\<rparr>
        \<and> run_requests settings s0 calls = (s', os) \<longrightarrow>
        stats s' = \<lparr>hits = int (count_list os Hit), misses = int (count_list os Miss),
                    total_requests = int (count_list os Hit + count_list os Miss
                                          + count_list os ReadFailed)\<rparr>
        \<and> length os = length calls
        \<and> ((\<exists>m. cache_manager s0 = Memory m) \<longrightarrow> count_list os ReadFailed = 0)
        \<and> (os \<noteq> [] \<longrightarrow>
             \<bar>hit_rate (get_stats settings (stats s'))
                - real (count_list os Hit)
                  / real (count_list os Hit + count_list os Miss + count_list os ReadFailed)
                  * 100\<bar> \<le> 1 / 200 + 1 / 10 ^ 13))
   \<and> hit_rate (get_stats settings \<lparr>hits = 23, misses = 137, total_requests = 160\<rparr>)
       = fl (1437 / 100)
   \<and> hit_rate (get_stats settings \<lparr>hits = 49, misses = 111, total_requests = 160\<rparr>)
       = fl (3063 / 100)
   \<and> \<bar>fl (1437 / 100) - 1437 / 100\<bar> \<le> 1 / 10 ^ 13
   \<and> \<bar>fl (3063 / 100) - 3063 / 100\<bar> \<le> 1 / 10 ^ 13
   \<and> hit_rate (get_stats settings \<lparr>hits = 1, misses = 31, total_requests = 32\<rparr>)
       = fl (312 / 100)
   \<and> hit_rate (get_stats settings \<lparr>hits = 3, misses = 29, total_requests = 32\<rparr>)
       = fl (938 / 100)
   \<and> \<bar>fl (312 / 100) - 312 / 100\<bar> \<le> 1 / 10 ^ 13
   \<and> \<bar>fl (938 / 100) - 938 / 100\<bar> \<le> 1 / 10 ^ 13"
proof -
  have bound: "\<bar>hit_rate (get_stats settings c)
           - of_int (hits c) / of_int (total_requests c) * 100\<bar> \<le> 1 / 200 + 1 / 10 ^ 13"
    if "0 \<le> hits c" "hits c \<le> total_requests c" "0 < total_requests c" for c
  proof -
    let ?q = "real_of_int (hits c) / real_of_int (total_requests c)"
    from that have "0 \<le> ?q" "?q \<le> 1" by simp_all
    then have "\<bar>py_round2 (fl (fl ?q * 100)) - ?q * 100\<bar> \<le> 1 / 200 + 1 / 10 ^ 13"
      by (rule rate_error)
    with that(3) show ?thesis by (simp add: hit_rate_get_stats)
  qed
  have a: "hit_rate (get_stats settings cs) = 0" if "total_requests cs \<le> 0"
    using that by (simp add: hit_rate_get_stats py_round2_zero)
  have b: "hit_rate (get_stats settings cs) =
          fl (of_int (round_half_even
                (fl (fl (of_int (hits cs) / of_int (total_requests cs)) * 100) * 100)) / 100)"
    if "0 < total_requests cs"
    using that by (simp add: hit_rate_get_stats py_round2_def)
  have d: "stats s' = \<lparr>hits = int (count_list os Hit), misses = int (count_list os Miss),
                    total_requests = int (count_list os Hit + count_list os Miss
                                          + count_list os ReadFailed)\<rparr>
        \<and> length os = length calls
        \<and> ((\<exists>m. cache_manager s0 = Memory m) \<longrightarrow> count_list os ReadFailed = 0)
        \<and> (os \<noteq> [] \<longrightarrow>
             \<bar>hit_rate (get_stats settings (stats s'))
                - real (count_list os Hit)
                  / real (count_list os Hit + count_list os Miss + count_list os ReadFailed)
                  * 100\<bar> \<le> 1 / 200 + 1 / 10 ^ 13)"
    if z: "stats s0 = \<lparr>hits = 0, misses = 0, total_requests = 0\<rparr>"
      and r: "run_requests settings s0 calls = (s', os)"
  proof -
    let ?M = "count_list os Hit" and ?N = "count_list os Miss" and ?F = "count_list os ReadFailed"
    have len: "?M + ?N + ?F = length os" by (rule outcome_counts)
    from run_counts[OF r] z
    have h: "hits (stats s') = int ?M" and m: "misses (stats s') = int ?N"
      and t: "total_requests (stats s') = int (length os)" and l: "length os = length calls"
      by simp_all
    from h m t len have st: "stats s' = \<lparr>hits = int ?M, misses = int ?N,
        total_requests = int (?M + ?N + ?F)\<rparr>" by simp
    have mem: "?F = 0" if "\<exists>m. cache_manager s0 = Memory m"
      using that run_memory_no_read_failure[OF _ r] by blast
    have rate: "\<bar>hit_rate (get_stats settings (stats s'))
                - real ?M / real (?M + ?N + ?F) * 100\<bar> \<le> 1 / 200 + 1 / 10 ^ 13"
      if "os \<noteq> []"
    proof -
      from that len have pos: "0 < ?M + ?N + ?F" by simp
      then have "0 < int (?M + ?N + ?F)" by (simp only: of_nat_0_less_iff)
      then have "\<bar>hit_rate (get_stats settings (stats s'))
           - of_int (hits (stats s')) / of_int (total_requests (stats s')) * 100\<bar>
           \<le> 1 / 200 + 1 / 10 ^ 13"
        by (intro bound) (simp_all add: st)
      then show ?thesis by (simp add: st)
    qed
    from st l mem rate show ?thesis by blast
  qed
  from a b bound[of cs] d hit_rate_23_160 hit_rate_49_160 fl_near_decimal
    hit_rate_1_32 hit_rate_3_32 fl_near_decimal2
  show ?thesis by blast
qed


theorem hit_rate_is_float_rounded_percentage_witness:
  "total_requests \<lparr>hits = 0, misses = 0, total_requests = 0\<rparr> \<le> 0
   \<and> hit_rate (get_stats default_settings \<lparr>hits = 0, misses = 0, total_requests = 0\<rparr>) = 0
   \<and> 0 \<le> hits \<lparr>hits = 1, misses = 3, total_requests = 4\<rparr>
   \<and> hits \<lparr>hits = 1, misses = 3, total_requests = 4\<rparr>
        \<le> total_requests \<lparr>hits = 1, misses = 3, total_requests = 4\<rparr>
   \<and> 0 < total_requests \<lparr>hits = 1, misses = 3, total_requests = 4\<rparr>
   \<and> \<bar>hit_rate (get_stats default_settings \<lparr>hits = 1, misses = 3, total_requests = 4\<rparr>)
        - 25\<bar> \<le> 1 / 200 + 1 / 10 ^ 13
   \<and> stats memory_state0 = \<lparr>hits = 0, misses = 0, total_requests = 0\<rparr>
   \<and> snd (run_requests default_settings memory_state0 example_calls) = [Miss, Hit]
   \<and> stats (fst (run_requests default_settings memory_state0 example_calls))
       = \<lparr>hits = 1, misses = 1, total_requests = 2\<rparr>
   \<and> (\<exists>m. cache_manager memory_state0 = Memory m)
   \<and> count_list (snd (run_requests default_settings memory_state0 example_calls)) ReadFailed = 0
   \<and> \<bar>hit_rate (get_stats default_settings
          (stats (fst (run_requests default_settings memory_state0 example_calls)))) - 50\<bar>
       \<le> 1 / 200 + 1 / 10 ^ 13"
proof -
  let ?z = "\<lparr>hits = 0, misses = 0, total_requests = 0\<rparr>"
  let ?q = "\<lparr>hits = 1, misses = 3, total_requests = 4\<rparr>"
  let ?run = "run_requests default_settings memory_state0 example_calls"
  have h0: "total_requests ?z \<le> 0" by simp
  have h1: "0 \<le> hits ?q \<and> hits ?q \<le> total_requests ?q \<and> 0 < total_requests ?q" by simp
  have h2: "stats memory_state0 = ?z" by (simp add: memory_state0_def)
  have h3: "?run = (fst ?run, snd ?run)" by simp
  have h4: "\<exists>m. cache_manager memory_state0 = Memory m" by (simp add: memory_state0_def)
  have os: "snd ?run = [Miss, Hit]" by (simp add: run_example)
  note t = hit_rate_is_float_rounded_percentage[of ?z default_settings memory_state0
      example_calls "fst ?run" "snd ?run"]
  note u = hit_rate_is_float_rounded_percentage[of ?q default_settings memory_state0
      example_calls "fst ?run" "snd ?run"]
  from t h0 have 1: "hit_rate (get_stats default_settings ?z) = 0" by blast
  from u h1 have "\<bar>hit_rate (get_stats default_settings ?q)
      - of_int (hits ?q) / of_int (total_requests ?q) * 100\<bar> \<le> 1 / 200 + 1 / 10 ^ 13"
    by blast
  then have 2: "\<bar>hit_rate (get_stats default_settings ?q) - 25\<bar> \<le> 1 / 200 + 1 / 10 ^ 13"
    by simp
  from t h2 h3 have r: "stats (fst ?run) =
        \<lparr>hits = int (count_list (snd ?run) Hit), misses = int (count_list (snd ?run) Miss),
         total_requests = int (count_list (snd ?run) Hit + count_list (snd ?run) Miss
                               + count_list (snd ?run) ReadFailed)\<rparr>"
    and f: "(\<exists>m. cache_manager memory_state0 = Memory m) \<longrightarrow>
            count_list (snd ?run) ReadFailed = 0"
    and b: "snd ?run \<noteq> [] \<longrightarrow>
            \<bar>hit_rate (get_stats default_settings (stats (fst ?run)))
               - real (count_list (snd ?run) Hit)
                 / real (count_list (snd ?run) Hit + count_list (snd ?run) Miss
                         + count_list (snd ?run) ReadFailed) * 100\<bar>
             \<le> 1 / 200 + 1 / 10 ^ 13"
    by blast+
  from r have 3: "stats (fst ?run) = \<lparr>hits = 1, misses = 1, total_requests = 2\<rparr>"
    by (simp add: os)
  from f h4 have 4: "count_list (snd ?run) ReadFailed = 0" by blast
  from b have 5: "\<bar>hit_rate (get_stats default_settings (stats (fst ?run))) - 50\<bar>
       \<le> 1 / 200 + 1 / 10 ^ 13"
    by (simp add: os)
  from h0 h1 h2 h4 os 1 2 3 4 5 show ?thesis by blast
qed

text \<open>
  The hit rate is not the ratio \<open>M / (M + N)\<close>: after one miss and one hit the report
  says 50, not 1/2.
\<close>

theorem hit_rate_is_not_the_ratio_counterexample:
  "snd (run_requests default_settings memory_state0 example_calls) = [Miss, Hit]
   \<and> hit_rate (get_stats default_settings
         (stats (fst (run_requests default_settings memory_state0 example_calls)))) = 50
   \<and> hit_rate (get_stats default_settings
         (stats (fst (run_requests default_settings memory_state0 example_calls))))
       \<noteq> 1 / (1 + 1)"
  by (simp add: run_example hit_rate_1_2)

end
